theory Spec2Isabelle
  imports Complex_Main "HOL-Library.Word" "HOL-Library.Sublist"
begin

section \<open>JavaScript strings\<close>

text \<open>
  A JavaScript string is a sequence of UTF-16 code units; \<open>length\<close>, \<open>indexOf\<close>,
  \<open>substring\<close>, indexing and a regular expression without the \<open>u\<close> flag all count code
  units. \<open>js\<close> turns an ASCII literal into its code units; a character outside ASCII is
  written by its code units.
\<close>

type_synonym code_unit = "16 word"
type_synonym jsstring = "code_unit list"

definition js :: "string \<Rightarrow> jsstring" where
  "js s = map (\<lambda>c. of_nat (of_char c)) s"

text \<open>
  The characters of the regular expression class \<open>\s\<close>, which are also the ones
  \<open>String.prototype.trim\<close> removes: ECMAScript's WhiteSpace (TAB, VT, FF, SP, NBSP,
  ZWNBSP and the Unicode space separators) and LineTerminator (LF, CR, LS, PS).
\<close>

definition is_space :: "code_unit \<Rightarrow> bool" where
  "is_space c \<longleftrightarrow>
     c = 0x09 \<or> c = 0x0A \<or> c = 0x0B \<or> c = 0x0C \<or> c = 0x0D \<or> c = 0x20 \<or> c = 0xA0 \<or>
     c = 0x1680 \<or> (0x2000 \<le> c \<and> c \<le> 0x200A) \<or> c = 0x2028 \<or> c = 0x2029 \<or>
     c = 0x202F \<or> c = 0x205F \<or> c = 0x3000 \<or> c = 0xFEFF"

text \<open>\<open>s.trim()\<close>\<close>

definition trim :: "jsstring \<Rightarrow> jsstring" where
  "trim s = rev (dropWhile is_space (rev (dropWhile is_space s)))"

text \<open>\<open>s.indexOf(c)\<close> for a one-character \<open>c\<close>: the first index, or \<open>-1\<close>.\<close>

fun indexOf :: "jsstring \<Rightarrow> code_unit \<Rightarrow> int" where
  "indexOf [] c = -1"
| "indexOf (x # xs) c =
     (if x = c then 0 else (let i = indexOf xs c in if i = -1 then -1 else i + 1))"

text \<open>
  \<open>s.replace(/LIT\s*/g, '')\<close> for a literal \<open>LIT\<close>: the matches are found from left to
  right and do not overlap; a match is the literal with all the white space after it
  (\<open>\s*\<close> is greedy and nothing follows it), and the search goes on behind the match.
\<close>

function stripFence :: "jsstring \<Rightarrow> jsstring \<Rightarrow> jsstring" where
  "stripFence lit [] = []"
| "stripFence lit (c # cs) =
     (if lit \<noteq> [] \<and> prefix lit (c # cs)
      then stripFence lit (dropWhile is_space (drop (length lit) (c # cs)))
      else c # stripFence lit cs)"
  by pat_completeness auto
termination
proof (relation "measure (\<lambda>(lit, s). length s)")
  show "wf (measure (\<lambda>(lit, s). length s))"
    by simp
next
  fix lit :: jsstring and c :: code_unit and cs :: jsstring
  assume "lit \<noteq> [] \<and> prefix lit (c # cs)"
  then have pos: "0 < length lit"
    by simp
  have "length (dropWhile is_space (drop (length lit) (c # cs)))
      \<le> length (drop (length lit) (c # cs))"
    by (rule length_dropWhile_le)
  also have "\<dots> = length (c # cs) - length lit"
    by (rule length_drop)
  also have "\<dots> < length (c # cs)"
    using pos by (simp del: length_greater_0_conv)
  finally show "((lit, dropWhile is_space (drop (length lit) (c # cs))), (lit, c # cs))
      \<in> measure (\<lambda>(lit, s). length s)"
    by (simp del: length_greater_0_conv)
next
  fix lit :: jsstring and c :: code_unit and cs :: jsstring
  show "((lit, cs), (lit, c # cs)) \<in> measure (\<lambda>(lit, s). length s)"
    by simp
qed

section \<open>cleanJSON (the provider abstraction layer)\<close>

text \<open>
  The two scanning loops of \<open>cleanJSON\<close> differ only in the pair of characters they
  count. \<open>scanDepth op cl depth s\<close> runs the loop body over \<open>s\<close>, the text from the
  current index on, with the current \<open>depth\<close>; it yields how many characters were read
  when the depth is zero after one of them (the loop's \<open>return\<close>), and \<open>None\<close> when the
  loop runs off the end of the text.
\<close>

fun scanDepth :: "code_unit \<Rightarrow> code_unit \<Rightarrow> int \<Rightarrow> jsstring \<Rightarrow> nat option" where
  "scanDepth op cl depth [] = None"
| "scanDepth op cl depth (c # cs) =
     (let d1 = (if c = op then depth + 1 else depth);
          d2 = (if c = cl then d1 - 1 else d1)
      in if d2 = 0 then Some 1 else map_option Suc (scanDepth op cl d2 cs))"

text \<open>
  One loop with its \<open>return cleaned.substring(first, i + 1)\<close>, started at index
  \<open>first\<close> with depth 0.
\<close>

definition balancedFrom :: "code_unit \<Rightarrow> code_unit \<Rightarrow> jsstring \<Rightarrow> nat \<Rightarrow> jsstring option" where
  "balancedFrom op cl cleaned first =
     map_option (\<lambda>n. take n (drop first cleaned)) (scanDepth op cl 0 (drop first cleaned))"

abbreviation LBRACKET :: code_unit where "LBRACKET \<equiv> 0x5B"
abbreviation RBRACKET :: code_unit where "RBRACKET \<equiv> 0x5D"
abbreviation LBRACE :: code_unit where "LBRACE \<equiv> 0x7B"
abbreviation RBRACE :: code_unit where "RBRACE \<equiv> 0x7D"

text \<open>
  The first statement after the guard:
  \<open>text.replace(/```json\s*/g, '').replace(/```\s*/g, '').trim()\<close>.
\<close>

definition cleanFences :: "jsstring \<Rightarrow> jsstring" where
  \<open>cleanFences text = trim (stripFence (js ''```'') (stripFence (js ''```json'') text))\<close>

definition cleanJSON :: "jsstring \<Rightarrow> jsstring" where
  \<open>cleanJSON text =
     (if text = [] then js ''{}''
      else
        let cleaned = cleanFences text;
            firstBracket = indexOf cleaned LBRACKET;
            firstBrace = indexOf cleaned LBRACE
        in case (if firstBracket \<noteq> -1 \<and> (firstBrace = -1 \<or> firstBracket < firstBrace)
                 then balancedFrom LBRACKET RBRACKET cleaned (nat firstBracket) else None) of
             Some r \<Rightarrow> r
           | None \<Rightarrow>
               (case (if firstBrace \<noteq> -1
                      then balancedFrom LBRACE RBRACE cleaned (nat firstBrace) else None) of
                  Some r \<Rightarrow> r
                | None \<Rightarrow> cleaned))\<close>

section \<open>The data model (the type declarations)\<close>

text \<open>
  A TypeScript interface is a record, a union of string literals a datatype, an optional
  field an \<open>option\<close>. A field name that another interface uses too, or that Isabelle
  reserves, carries the initials of its interface. \<open>number\<close> fields hold counts, indices
  and timestamps and are integers.
\<close>

datatype InterviewPhase = Background | CoreQuestions | Exploration | Feedback | WrapUp

record QuestionProgress =
  questionsAsked :: "int list"
  total_QP :: int
  currentPhase :: InterviewPhase
  isComplete :: bool

record ProfileField =
  id_PF :: jsstring
  label :: jsstring
  extractionHint :: jsstring
  required :: bool
  options :: "jsstring list option"

datatype ProfileFieldStatus = Pending | Extracted | Vague | Refused

record ProfileFieldValue =
  fieldId :: jsstring
  value_PFV :: "jsstring option"
  status :: ProfileFieldStatus
  extractedAt :: "int option"

text \<open>
  Modelled from the spec: the declaration of the optional field \<open>nickname\<close>, which
  \<open>buildInterviewSystemPrompt\<close> reads, is not among the sources; it is an optional string.
\<close>

record ParticipantProfile =
  id_PP :: jsstring
  fields_PP :: "ProfileFieldValue list"
  rawContext :: jsstring
  timestamp_PP :: int
  nickname :: "jsstring option"

datatype AIBehavior = Structured | Standard | Exploratory

text \<open>
  Modelled from the spec: the declaration of \<open>InterviewerTone\<close> and of the optional fields
  \<open>language\<close> and \<open>tone\<close> of the study configuration is not among the sources. The tone is
  the closed enumeration formal, professional, neutral, friendly, extremely_friendly that
  \<open>getToneInstruction\<close> switches on; the language is an optional string.
\<close>

datatype InterviewerTone = Formal | Professional | Neutral | Friendly | ExtremelyFriendly

record StudyConfig =
  id_SC :: jsstring
  name_SC :: jsstring
  description :: jsstring
  researchQuestion :: jsstring
  coreQuestions :: "jsstring list"
  topicAreas :: "jsstring list"
  profileSchema :: "ProfileField list"
  aiBehavior :: AIBehavior
  consentText :: jsstring
  createdAt :: int
  language :: "jsstring option"
  tone :: "InterviewerTone option"

datatype MessageRole = RoleUser | RoleAi | RoleSystem

record InterviewMessage =
  id_IM :: jsstring
  role :: MessageRole
  content :: jsstring
  timestamp_IM :: int
  isVoice :: "bool option"

datatype UpdateStatus = UpdExtracted | UpdVague | UpdRefused

record ProfileUpdate =
  fieldId_PU :: jsstring
  value_PU :: "jsstring option"
  status_PU :: UpdateStatus

record AIInterviewResponse =
  message :: jsstring
  questionAddressed :: "int option"
  phaseTransition :: "InterviewPhase option"
  profileUpdates :: "ProfileUpdate list"
  shouldConclude :: bool

text \<open>How a template literal renders a value of each type.\<close>

fun phaseName :: "InterviewPhase \<Rightarrow> jsstring" where
  "phaseName Background = js ''background''"
| "phaseName CoreQuestions = js ''core-questions''"
| "phaseName Exploration = js ''exploration''"
| "phaseName Feedback = js ''feedback''"
| "phaseName WrapUp = js ''wrap-up''"

fun statusName :: "ProfileFieldStatus \<Rightarrow> jsstring" where
  "statusName Pending = js ''pending''"
| "statusName Extracted = js ''extracted''"
| "statusName Vague = js ''vague''"
| "statusName Refused = js ''refused''"

text \<open>A non-negative integer in a template literal: its decimal digits.\<close>

function showNat :: "nat \<Rightarrow> jsstring" where
  "showNat n = (if n < 10 then [of_nat (48 + n)] else showNat (n div 10) @ [of_nat (48 + n mod 10)])"
  by pat_completeness auto
termination
  by (relation "measure (\<lambda>n. n)") auto

declare showNat.simps [simp del]

text \<open>A \<open>string | null\<close> in a template literal: \<open>null\<close> renders as the word null.\<close>

definition showNullable :: "jsstring option \<Rightarrow> jsstring" where
  "showNullable v = (case v of None \<Rightarrow> js ''null'' | Some s \<Rightarrow> s)"

text \<open>\<open>xs.join(sep)\<close> on an array of strings.\<close>

fun join :: "jsstring \<Rightarrow> jsstring list \<Rightarrow> jsstring" where
  "join sep [] = []"
| "join sep [x] = x"
| "join sep (x # y # ys) = x @ sep @ join sep (y # ys)"

text \<open>
  \<open>xs.slice(start)\<close>: a negative \<open>start\<close> counts from the end and stops at the first
  element.
\<close>

definition sliceFrom :: "int \<Rightarrow> 'a list \<Rightarrow> 'a list" where
  "sliceFrom start xs =
     (let len = int (length xs);
          k = (if start < 0 then max (len + start) 0 else min start len)
      in drop (nat k) xs)"

text \<open>\<open>xs.map((q, i) => ({ index: i, question: q }))\<close>\<close>

definition withIndex :: "'a list \<Rightarrow> (nat \<times> 'a) list" where
  "withIndex xs = zip [0 ..< length xs] xs"

section \<open>The interview system prompt\<close>

text \<open>
  The source file of the prompts holds two versions of its functions, one after the
  other; the later one, with the tone, the language and the participant identifier, is the
  one embedded here.
\<close>

fun getAIBehaviorInstruction :: "AIBehavior \<Rightarrow> jsstring" where
  \<open>getAIBehaviorInstruction Structured =
     js ''BEHAVIOR MODE: Structured\<newline>'' @
     js ''- Prioritize brevity and script completion\<newline>'' @
     js ''- Ask only clarifying follow-ups (0-1 per question)\<newline>'' @
     js ''- Redirect tangents: "That's interesting, but let's focus on..."''\<close>
| \<open>getAIBehaviorInstruction Exploratory =
     js ''BEHAVIOR MODE: Exploratory\<newline>'' @
     js ''- Prioritize depth over coverage\<newline>'' @
     js ''- Follow emotional threads and probe underlying motivations (3+ follow-ups if rich)\<newline>'' @
     js ''- Chase interesting tangents immediately if relevant\<newline>'' @
     js ''- Treat the script as a guide, not a checklist''\<close>
| \<open>getAIBehaviorInstruction Standard =
     js ''BEHAVIOR MODE: Standard (Balanced)\<newline>'' @
     js ''- Balance script completion with natural conversation\<newline>'' @
     js ''- Follow up once or twice on key insights, then move on\<newline>'' @
     js ''- Note interesting tangents for the Exploration phase later''\<close>

text \<open>
  \<open>getToneInstruction(tone = 'neutral')\<close>: the default parameter stands in for a tone
  that is not given, and \<open>neutral\<close> is the \<open>default\<close> branch of the switch.
\<close>

fun toneInstruction :: "InterviewerTone \<Rightarrow> jsstring" where
  \<open>toneInstruction Formal =
     js ''TONE: Formal\<newline>'' @
     js ''- Maintain professional distance\<newline>'' @
     js ''- Be objective and detached\<newline>'' @
     js ''- Use precise, academic language\<newline>'' @
     js ''- Avoid all casualisms or warmth''\<close>
| \<open>toneInstruction Professional =
     js ''TONE: Professional\<newline>'' @
     js ''- Be polite and respectful but strictly business-like\<newline>'' @
     js ''- Focus on the task involved\<newline>'' @
     js ''- Maintain a courteous but reserved demeanor''\<close>
| \<open>toneInstruction Friendly =
     js ''TONE: Friendly\<newline>'' @
     js ''- Be warm and welcoming\<newline>'' @
     js ''- Use engaging, natural language\<newline>'' @
     js ''- Show interest in the participant's responses\<newline>'' @
     js ''- Feel free to be slightly casual where appropriate''\<close>
| \<open>toneInstruction ExtremelyFriendly =
     js ''TONE: Extremely Friendly (Bestie Mode)\<newline>'' @
     js ''- Act like a close friend\<newline>'' @
     js ''- Be very enthusiastic and high-energy\<newline>'' @
     js ''- Use casual language and slang where appropriate\<newline>'' @
     js ''- Show high empathy and excitement''\<close>
| \<open>toneInstruction Neutral =
     js ''TONE: Neutral\<newline>'' @
     js ''- Normal conversational tone\<newline>'' @
     js ''- Neither overly cold nor overly intimate\<newline>'' @
     js ''- Natural and balanced''\<close>

definition getToneInstruction :: "InterviewerTone option \<Rightarrow> jsstring" where
  "getToneInstruction t = toneInstruction (case t of None \<Rightarrow> Neutral | Some x \<Rightarrow> x)"

text \<open>\<open>profile?.fields.find(f => f.fieldId === id)\<close>: the first entry of the field, if any.\<close>

definition findFieldValue :: "ParticipantProfile option \<Rightarrow> jsstring \<Rightarrow> ProfileFieldValue option" where
  "findFieldValue profile fid =
     (case profile of
        None \<Rightarrow> None
      | Some p \<Rightarrow> find (\<lambda>f. fieldId f = fid) (fields_PP p))"

text \<open>
  The body of the \<open>map\<close> in \<open>formatProfileFields\<close>. A status is never the empty string, so
  \<open>value?.status || 'pending'\<close> is \<open>pending\<close> exactly when there is no entry. The arrow is
  U+2192.
\<close>

definition formatProfileField :: "ParticipantProfile option \<Rightarrow> ProfileField \<Rightarrow> jsstring" where
  \<open>formatProfileField profile field =
     (let value = findFieldValue profile (id_PF field);
          status = (case value of None \<Rightarrow> Pending | Some v \<Rightarrow> ProfileFieldValue.status v);
          statusDisplay =
            (if status = Extracted
             then js ''extracted '' @ [0x2192] @ js '' "'' @
                  (case value of None \<Rightarrow> js ''undefined'' | Some v \<Rightarrow> showNullable (value_PFV v)) @
                  js ''"''
             else statusName status)
      in js ''- '' @ id_PF field @ js '' ('' @
         (if required field then js ''required'' else js ''optional'') @
         js ''): "'' @ extractionHint field @ js ''" - STATUS: '' @ statusDisplay)\<close>

definition formatProfileFields :: "ProfileField list \<Rightarrow> ParticipantProfile option \<Rightarrow> jsstring" where
  \<open>formatProfileFields schema profile =
     join (js ''\<newline>'') (map (formatProfileField profile) schema)\<close>

text \<open>The constants that \<open>buildInterviewSystemPrompt\<close> computes before its template.\<close>

definition remainingQuestions :: "StudyConfig \<Rightarrow> QuestionProgress \<Rightarrow> (nat \<times> jsstring) list" where
  "remainingQuestions studyConfig questionProgress =
     filter (\<lambda>q. int (fst q) \<notin> set (questionsAsked questionProgress))
       (withIndex (coreQuestions studyConfig))"

definition requiredFields :: "StudyConfig \<Rightarrow> ProfileField list" where
  "requiredFields studyConfig = filter required (profileSchema studyConfig)"

definition pendingRequired :: "StudyConfig \<Rightarrow> ParticipantProfile option \<Rightarrow> ProfileField list" where
  "pendingRequired studyConfig participantProfile =
     filter (\<lambda>f. case findFieldValue participantProfile (id_PF f) of
                    None \<Rightarrow> True
                  | Some value \<Rightarrow> ProfileFieldValue.status value = Pending
                                 \<or> ProfileFieldValue.status value = Vague)
       (requiredFields studyConfig)"

definition languageInstruction :: "StudyConfig \<Rightarrow> jsstring" where
  \<open>languageInstruction studyConfig =
     (if language studyConfig = Some (js ''jp'')
      then js ''IMPORTANT: You must conduct this interview entirely in Japanese. Translate any system instructions or questions into natural, professional Japanese.''
      else js ''Language: English'')\<close>

text \<open>
  The interpolations of the template that choose between two texts. The warning sign is
  U+26A0 U+FE0F.
\<close>

definition remainingBlock :: "StudyConfig \<Rightarrow> QuestionProgress \<Rightarrow> jsstring" where
  \<open>remainingBlock studyConfig questionProgress =
     (let remaining = remainingQuestions studyConfig questionProgress
      in if length remaining > 0
         then js ''- Remaining questions:\<newline>'' @
              join (js ''\<newline>'')
                (map (\<lambda>q. js ''  '' @ showNat (fst q + 1) @ js ''. '' @ snd q) (take 3 remaining))
         else js ''- All core questions covered'')\<close>

definition pendingWarning :: "StudyConfig \<Rightarrow> ParticipantProfile option \<Rightarrow> jsstring" where
  \<open>pendingWarning studyConfig participantProfile =
     (let pending = pendingRequired studyConfig participantProfile
      in if length pending > 0
         then js ''\<newline>'' @ [0x26A0, 0xFE0F] @ js '' '' @ showNat (length pending) @
              js '' required fields still pending. Stay in background phase until collected or explicitly refused.''
         else [])\<close>

definition buildInterviewSystemPrompt ::
  "StudyConfig \<Rightarrow> ParticipantProfile option \<Rightarrow> QuestionProgress \<Rightarrow> jsstring \<Rightarrow> jsstring" where
  \<open>buildInterviewSystemPrompt studyConfig participantProfile questionProgress currentContext =
     (let participantNickname = (case participantProfile of None \<Rightarrow> None | Some p \<Rightarrow> nickname p)
      in
     js ''You are an AI research interviewer conducting a qualitative study.\<newline>'' @
     (case participantNickname of
        None \<Rightarrow> []
      | Some n \<Rightarrow> if n \<noteq> [] then js ''PARTICIPANT IDENTIFIER: '' @ n else []) @
     js ''\<newline>'' @
     languageInstruction studyConfig @ js ''\<newline>'' @
     js ''\<newline>'' @
     js ''STUDY DETAILS:\<newline>'' @
     js ''- Research Question: '' @ researchQuestion studyConfig @ js ''\<newline>'' @
     js ''- Description: '' @ description studyConfig @ js ''\<newline>'' @
     js ''- Topics to Explore: '' @ join (js '', '') (topicAreas studyConfig) @ js ''\<newline>'' @
     js ''\<newline>'' @
     getAIBehaviorInstruction (aiBehavior studyConfig) @ js ''\<newline>'' @
     js ''\<newline>'' @
     getToneInstruction (tone studyConfig) @ js ''\<newline>'' @
     js ''\<newline>'' @
     js ''CURRENT INTERVIEW STATE:\<newline>'' @
     js ''- Phase: '' @ phaseName (currentPhase questionProgress) @ js ''\<newline>'' @
     js ''- Core questions completed: '' @ showNat (length (questionsAsked questionProgress)) @
       js '' of '' @ showNat (length (coreQuestions studyConfig)) @ js ''\<newline>'' @
     remainingBlock studyConfig questionProgress @ js ''\<newline>'' @
     js ''\<newline>'' @
     js ''PROFILE FIELDS TO COLLECT:\<newline>'' @
     formatProfileFields (profileSchema studyConfig) participantProfile @ js ''\<newline>'' @
     pendingWarning studyConfig participantProfile @ js ''\<newline>'' @
     js ''\<newline>'' @
     js ''PARTICIPANT CONTEXT:\<newline>'' @
     (case participantProfile of
        None \<Rightarrow> js ''No background gathered yet.''
      | Some p \<Rightarrow> if rawContext p \<noteq> [] then rawContext p else js ''No background gathered yet.'') @
     js ''\<newline>'' @
     js ''\<newline>'' @
     js ''INTERVIEW FLOW INSTRUCTIONS:\<newline>'' @
     js ''1. BACKGROUND PHASE: Gather profile fields naturally. Bundle related questions. If answer is vague, ask one clarifying follow-up. If user refuses, mark as refused and move on.\<newline>'' @
     js ''2. CORE QUESTIONS PHASE: Work through remaining core questions. Weave them naturally - don't follow strict order. Probe deeper on interesting responses.\<newline>'' @
     js ''3. EXPLORATION PHASE: After all core questions, ask: "Is there anything else about [topic] you'd like to explore or share?"\<newline>'' @
     js ''4. FEEDBACK PHASE: Ask: "As a final question - do you have any feedback for the researchers about this study or interview experience?"\<newline>'' @
     js ''5. WRAP-UP PHASE: Thank them warmly and signal that the interview is complete.\<newline>'' @
     js ''\<newline>'' @
     js ''RULES:\<newline>'' @
     js ''- Ask ONE question at a time\<newline>'' @
     js ''- Use active listening - reflect back what you hear\<newline>'' @
     js ''- Keep responses concise (2-3 sentences typical)\<newline>'' @
     js ''- When a core question is substantially addressed, note its index\<newline>'' @
     js ''- Extract profile data from user responses when mentioned\<newline>'' @
     js ''- Signal shouldConclude=true only after feedback phase is complete\<newline>'' @
     js ''- ALWAYS end your response with a question, unless the interview is concluding (shouldConclude=true)\<newline>'' @
     js ''- If the user asks a question, answer it briefly and then immediately ask a follow-up or return to the topic. Do not just answer.\<newline>'' @
     js ''\<newline>'' @
     (if currentContext \<noteq> [] then js ''ADDITIONAL CONTEXT:\<newline>'' @ currentContext else []))\<close>

section \<open>The Gemini provider: generateInterviewResponse\<close>

text \<open>
  What \<open>JSON.parse\<close> returns is a JavaScript value. A JSON number is kept as a rational
  (only whether it is zero is ever asked); \<open>JUndefined\<close> is what reading a property that
  an object does not have yields. An object is the list of its own properties.
\<close>

datatype jsval =
    JUndefined
  | JNull
  | JBool bool
  | JNum rat
  | JStr jsstring
  | JArr "jsval list"
  | JObj "(jsstring \<times> jsval) list"

text \<open>The values that \<open>||\<close> and \<open>!\<close> take for true.\<close>

fun truthy :: "jsval \<Rightarrow> bool" where
  "truthy JUndefined = False"
| "truthy JNull = False"
| "truthy (JBool b) = b"
| "truthy (JNum n) = (n \<noteq> 0)"
| "truthy (JStr s) = (s \<noteq> [])"
| "truthy (JArr xs) = True"
| "truthy (JObj kvs) = True"

text \<open>\<open>a || b\<close> and \<open>a ?? b\<close>\<close>

definition orElse :: "jsval \<Rightarrow> jsval \<Rightarrow> jsval" where
  "orElse a b = (if truthy a then a else b)"

definition nullish :: "jsval \<Rightarrow> jsval \<Rightarrow> jsval" where
  "nullish a b = (if a = JUndefined \<or> a = JNull then b else a)"

text \<open>
  What can be thrown inside the \<open>try\<close>: whatever the SDK throws (an error with its
  message), the SyntaxError of \<open>JSON.parse\<close> and the TypeError of a property read on
  \<open>null\<close>.
\<close>

datatype exn = SdkError jsstring | SyntaxError | TypeError

text \<open>
  \<open>parsed.key\<close> for one of the five keys the provider reads: \<open>null\<close> and \<open>undefined\<close> have
  no properties and the read throws a TypeError; an object yields its own property or
  \<open>undefined\<close>; an array, a string, a number and a boolean have no property of these names.
\<close>

fun getProp :: "jsval \<Rightarrow> jsstring \<Rightarrow> exn + jsval" where
  "getProp JUndefined k = Inl TypeError"
| "getProp JNull k = Inl TypeError"
| "getProp (JObj kvs) k = Inr (case map_of kvs k of None \<Rightarrow> JUndefined | Some v \<Rightarrow> v)"
| "getProp v k = Inr JUndefined"

text \<open>
  The object that \<open>generateInterviewResponse\<close> returns. Its declared type is
  \<open>AIInterviewResponse\<close>, but nothing checks the parsed values against it, so each field
  holds whatever JavaScript value the expression of the source yields.
\<close>

record ResponseObject =
  message_RO :: jsval
  questionAddressed_RO :: jsval
  phaseTransition_RO :: jsval
  profileUpdates_RO :: jsval
  shouldConclude_RO :: jsval

definition defaultInterviewResponse :: ResponseObject where
  \<open>defaultInterviewResponse =
     \<lparr> message_RO = JStr (js ''I appreciate you sharing that. What else comes to mind?''),
       questionAddressed_RO = JNull,
       phaseTransition_RO = JNull,
       profileUpdates_RO = JArr [],
       shouldConclude_RO = JBool False \<rparr>\<close>

text \<open>
  What reaches the SDK: the model name and the system instruction of \<open>chats.create\<close>, its
  \<open>history\<close>, and the message of \<open>chat.sendMessage\<close> (the response schema is a constant
  and is left out). The backend is a parameter. The method awaits \<open>chat.sendMessage\<close>
  without a timeout or an abort signal, so the call has three outcomes: the SDK throws, it
  answers with a result whose \<open>text\<close> may be undefined, or the promise never settles.
\<close>

record Content =
  role_C :: jsstring
  parts :: "jsstring list"

record ChatRequest =
  model_CR :: jsstring
  systemInstruction :: jsstring
  history_CR :: "Content list"
  message_CR :: jsstring

datatype SdkOutcome = Throws jsstring | Answers "jsstring option" | NeverSettles

type_synonym backend = "ChatRequest \<Rightarrow> SdkOutcome"

definition toContent :: "InterviewMessage \<Rightarrow> Content" where
  \<open>toContent h = \<lparr> role_C = (if role h = RoleAi then js ''model'' else js ''user''),
                   parts = [content h] \<rparr>\<close>

text \<open>\<open>history.filter(m => m.role === 'user').pop()\<close>\<close>

definition lastUserMessage :: "InterviewMessage list \<Rightarrow> InterviewMessage option" where
  "lastUserMessage history =
     (case filter (\<lambda>m. role m = RoleUser) history of
        [] \<Rightarrow> None
      | u # us \<Rightarrow> Some (last (u # us)))"

definition chatRequest :: "jsstring \<Rightarrow> jsstring \<Rightarrow> InterviewMessage list \<Rightarrow> ChatRequest" where
  \<open>chatRequest model systemInstr history =
     \<lparr> model_CR = model,
       systemInstruction = systemInstr,
       history_CR = map toContent (sliceFrom (-10) history),
       message_CR =
         (case lastUserMessage history of
            None \<Rightarrow> js ''Please continue the interview.''
          | Some m \<Rightarrow> if content m \<noteq> [] then content m
                      else js ''Please continue the interview.'') \<rparr>\<close>

text \<open>The object literal of the \<open>return\<close>, from the parsed value.\<close>

definition responseFromParsed :: "jsval \<Rightarrow> exn + ResponseObject" where
  \<open>responseFromParsed parsed =
     (case getProp parsed (js ''message'') of Inl e \<Rightarrow> Inl e | Inr m \<Rightarrow>
      case getProp parsed (js ''questionAddressed'') of Inl e \<Rightarrow> Inl e | Inr q \<Rightarrow>
      case getProp parsed (js ''phaseTransition'') of Inl e \<Rightarrow> Inl e | Inr p \<Rightarrow>
      case getProp parsed (js ''profileUpdates'') of Inl e \<Rightarrow> Inl e | Inr u \<Rightarrow>
      case getProp parsed (js ''shouldConclude'') of Inl e \<Rightarrow> Inl e | Inr s \<Rightarrow>
        Inr \<lparr> message_RO = orElse m (JStr (js ''That's interesting. Could you tell me more?'')),
              questionAddressed_RO = nullish q JNull,
              phaseTransition_RO = nullish p JNull,
              profileUpdates_RO = orElse u (JArr []),
              shouldConclude_RO = orElse s (JBool False) \<rparr>)\<close>

text \<open>\<open>result.text || '{}'\<close>\<close>

definition textOrEmptyObject :: "jsstring option \<Rightarrow> jsstring" where
  \<open>textOrEmptyObject t = (case t of None \<Rightarrow> js ''{}'' | Some s \<Rightarrow> if s \<noteq> [] then s else js ''{}'')\<close>

text \<open>
  The body of the \<open>try\<close>. \<open>JSON.parse\<close> is a parameter: it yields a value, or \<open>None\<close>
  when it throws a SyntaxError. The result of the body is \<open>None\<close> when the awaited call
  never settles: then nothing after the \<open>await\<close> runs.
\<close>

definition tryBody ::
  "backend \<Rightarrow> (jsstring \<Rightarrow> jsval option) \<Rightarrow> jsstring \<Rightarrow> jsstring \<Rightarrow> InterviewMessage list
     \<Rightarrow> (exn + ResponseObject) option" where
  "tryBody backend parse model systemInstr history =
     (case backend (chatRequest model systemInstr history) of
        NeverSettles \<Rightarrow> None
      | Throws failure \<Rightarrow> Some (Inl (SdkError failure))
      | Answers text \<Rightarrow>
          (case parse (cleanJSON (textOrEmptyObject text)) of
             None \<Rightarrow> Some (Inl SyntaxError)
           | Some parsed \<Rightarrow> Some (responseFromParsed parsed)))"

text \<open>
  The method: the prompt is assembled before the \<open>try\<close>; the \<open>catch\<close> logs the error and
  returns the default response. The result is \<open>None\<close> when the promise the method returns
  never settles; otherwise it is a sum, so that an exception leaving the method would show
  as \<open>Inl\<close>.
\<close>

definition generateInterviewResponse ::
  "backend \<Rightarrow> (jsstring \<Rightarrow> jsval option) \<Rightarrow> jsstring \<Rightarrow> InterviewMessage list \<Rightarrow> StudyConfig
     \<Rightarrow> ParticipantProfile option \<Rightarrow> QuestionProgress \<Rightarrow> jsstring
     \<Rightarrow> (exn + ResponseObject) option" where
  "generateInterviewResponse backend parse model history studyConfig participantProfile
       questionProgress currentContext =
     (let systemInstr =
            buildInterviewSystemPrompt studyConfig participantProfile questionProgress currentContext
      in case tryBody backend parse model systemInstr history of
           None \<Rightarrow> None
         | Some (Inl error) \<Rightarrow> Some (Inr defaultInterviewResponse)
         | Some (Inr response) \<Rightarrow> Some (Inr response))"

text \<open>
  Backends for the examples: one that answers every request with one text, one that
  throws, one that never settles; and a parser with one result.
\<close>

definition answering :: "jsstring \<Rightarrow> backend" where
  "answering t request = Answers (Some t)"

definition failing :: "jsstring \<Rightarrow> backend" where
  "failing reason request = Throws reason"

definition stalled :: backend where
  "stalled request = NeverSettles"

definition parsingTo :: "jsval option \<Rightarrow> jsstring \<Rightarrow> jsval option" where
  "parsingTo v s = v"

section \<open>The question-progress model, the profile model and the turn orchestrator\<close>

text \<open>
  Of the Question-Progress model, the Profile model and the Turn Orchestrator only the
  type declarations are among the sources. Their operations \<open>initialize\<close>,
  \<open>markAddressed\<close>, \<open>advancePhase\<close>, \<open>reconcile\<close> and the transition rule of a turn are
  written in this section from the component design of the specification.
\<close>

text \<open>
  Modelled from the spec: the fixed phase ordering background, core-questions,
  exploration, feedback, wrap-up.
\<close>

fun phaseOrder :: "InterviewPhase \<Rightarrow> nat" where
  "phaseOrder Background = 0"
| "phaseOrder CoreQuestions = 1"
| "phaseOrder Exploration = 2"
| "phaseOrder Feedback = 3"
| "phaseOrder WrapUp = 4"

text \<open>
  Modelled from the spec: \<open>initialize(total)\<close> has an empty set of addressed questions,
  the background phase and is not complete.
\<close>

definition initializeProgress :: "int \<Rightarrow> QuestionProgress" where
  "initializeProgress n =
     \<lparr> questionsAsked = [], total_QP = n, currentPhase = Background, isComplete = False \<rparr>"

text \<open>
  Modelled from the spec: \<open>markAddressed(progress, index)\<close> adds the index to the set if
  \<open>0 \<le> index < total\<close>; an index out of range is ignored.
\<close>

definition markAddressed :: "QuestionProgress \<Rightarrow> int \<Rightarrow> QuestionProgress" where
  "markAddressed progress index =
     (if 0 \<le> index \<and> index < total_QP progress
      then progress\<lparr>questionsAsked := List.insert index (questionsAsked progress)\<rparr>
      else progress)"

text \<open>
  Modelled from the spec: \<open>advancePhase(progress, requestedPhase)\<close> commits only if the
  requested phase is strictly later in the fixed ordering than the current one; an
  earlier or equal request is ignored.
\<close>

definition advancePhase :: "QuestionProgress \<Rightarrow> InterviewPhase \<Rightarrow> QuestionProgress" where
  "advancePhase progress requestedPhase =
     (if phaseOrder (currentPhase progress) < phaseOrder requestedPhase
      then progress\<lparr>currentPhase := requestedPhase\<rparr>
      else progress)"

text \<open>
  Modelled from the spec: \<open>reconcile(profile, proposedUpdates)\<close> applies each update to
  the entry of its field; an update for a field the profile does not have changes
  nothing. A proposed \<open>extracted\<close> without a value, or with an empty one, becomes \<open>vague\<close>,
  and only an extracted field keeps a value.
\<close>

definition reconciledValue :: "ProfileFieldValue \<Rightarrow> ProfileUpdate \<Rightarrow> ProfileFieldValue" where
  "reconciledValue fv u =
     (case status_PU u of
        UpdExtracted \<Rightarrow>
          (case value_PU u of
             None \<Rightarrow> fv\<lparr>value_PFV := None, status := Vague\<rparr>
           | Some v \<Rightarrow> if v = [] then fv\<lparr>value_PFV := None, status := Vague\<rparr>
                       else fv\<lparr>value_PFV := Some v, status := Extracted\<rparr>)
      | UpdVague \<Rightarrow> fv\<lparr>value_PFV := None, status := Vague\<rparr>
      | UpdRefused \<Rightarrow> fv\<lparr>value_PFV := None, status := Refused\<rparr>)"

text \<open>
  Modelled from the spec: one proposed update of \<open>reconcile\<close>, applied to the entry of its
  field; a profile without that field is left as it is.
\<close>

definition applyUpdate :: "ParticipantProfile \<Rightarrow> ProfileUpdate \<Rightarrow> ParticipantProfile" where
  "applyUpdate profile u =
     profile\<lparr>fields_PP :=
       map (\<lambda>fv. if fieldId fv = fieldId_PU u then reconciledValue fv u else fv)
         (fields_PP profile)\<rparr>"

text \<open>
  Modelled from the spec: \<open>reconcile(profile, proposedUpdates)\<close> applies the proposed
  updates one after the other.
\<close>

definition reconcile :: "ParticipantProfile \<Rightarrow> ProfileUpdate list \<Rightarrow> ParticipantProfile" where
  "reconcile profile proposedUpdates = foldl applyUpdate profile proposedUpdates"

text \<open>
  Modelled from the spec: the required fields are satisfied when every required field of
  the schema is \<open>extracted\<close> or \<open>refused\<close>.
\<close>

definition requiredSatisfied :: "StudyConfig \<Rightarrow> ParticipantProfile \<Rightarrow> bool" where
  "requiredSatisfied studyConfig profile =
     list_all
       (\<lambda>f. case findFieldValue (Some profile) (id_PF f) of
               None \<Rightarrow> False
             | Some v \<Rightarrow> ProfileFieldValue.status v = Extracted
                         \<or> ProfileFieldValue.status v = Refused)
       (requiredFields studyConfig)"

text \<open>
  Modelled from the spec: the state of one interview session that a turn reads and
  updates, the profile and the question progress.
\<close>

record Session =
  profile_S :: ParticipantProfile
  progress_S :: QuestionProgress

text \<open>
  Modelled from the spec: what a turn emits, the message, the updated profile and
  progress, and whether the interview is concluded.
\<close>

record TurnResult =
  reply :: jsstring
  session :: Session
  concluded :: bool

text \<open>
  Modelled from the spec: one turn of the orchestrator on the provider's response (the
  steps 3 to 5 of the transition rule). The profile updates are applied; an addressed
  question is marked; a phase transition is attempted through \<open>advancePhase\<close>, but not out
  of the background phase while required fields are unsatisfied; \<open>shouldConclude\<close> is
  honoured only when the response was returned while the current phase was wrap-up, and a
  premature one is treated as false. A terminal session accepts no further turn.
\<close>

definition applyTurn :: "StudyConfig \<Rightarrow> Session \<Rightarrow> AIInterviewResponse \<Rightarrow> TurnResult option" where
  "applyTurn studyConfig s response =
     (if isComplete (progress_S s) then None
      else
        let profile' = reconcile (profile_S s) (profileUpdates response);
            progress1 = (case questionAddressed response of
                           None \<Rightarrow> progress_S s
                         | Some i \<Rightarrow> markAddressed (progress_S s) i);
            progress2 = (case phaseTransition response of
                           None \<Rightarrow> progress1
                         | Some p \<Rightarrow>
                             if currentPhase progress1 = Background
                                \<and> \<not> requiredSatisfied studyConfig profile'
                             then progress1
                             else advancePhase progress1 p);
            conclude = (shouldConclude response \<and> currentPhase (progress_S s) = WrapUp)
        in Some \<lparr> reply = message response,
                  session = \<lparr> profile_S = profile',
                              progress_S = progress2\<lparr>isComplete := conclude\<rparr> \<rparr>,
                  concluded = conclude \<rparr>)"

text \<open>
  Modelled from the spec: the session after a turn; a turn that is not accepted changes
  nothing.
\<close>

definition afterTurn :: "StudyConfig \<Rightarrow> Session \<Rightarrow> AIInterviewResponse \<Rightarrow> Session" where
  "afterTurn studyConfig s response =
     (case applyTurn studyConfig s response of None \<Rightarrow> s | Some r \<Rightarrow> session r)"

text \<open>Modelled from the spec: the session after a sequence of turns.\<close>

definition afterTurns :: "StudyConfig \<Rightarrow> Session \<Rightarrow> AIInterviewResponse list \<Rightarrow> Session" where
  "afterTurns studyConfig s responses = foldl (afterTurn studyConfig) s responses"

section \<open>Notions the properties are stated with\<close>

text \<open>
  The bracket depth of a text after its first \<open>n\<close> characters, counting one pair of
  characters: the openers minus the closers among them.
\<close>

definition depthAfter :: "code_unit \<Rightarrow> code_unit \<Rightarrow> jsstring \<Rightarrow> nat \<Rightarrow> int" where
  "depthAfter op cl s n = int (count_list (take n s) op) - int (count_list (take n s) cl)"

text \<open>The depth is zero after \<open>n\<close> characters, for the first time.\<close>

definition returnsToZeroAt :: "code_unit \<Rightarrow> code_unit \<Rightarrow> jsstring \<Rightarrow> nat \<Rightarrow> bool" where
  "returnsToZeroAt op cl s n \<longleftrightarrow>
     n \<in> {1..length s} \<and> depthAfter op cl s n = 0 \<and> (\<forall>m\<in>{1..<n}. depthAfter op cl s m \<noteq> 0)"

text \<open>The depth is zero after no non-empty prefix of the text.\<close>

definition neverReturnsToZero :: "code_unit \<Rightarrow> code_unit \<Rightarrow> jsstring \<Rightarrow> bool" where
  "neverReturnsToZero op cl s \<longleftrightarrow> (\<forall>n\<in>{1..length s}. depthAfter op cl s n \<noteq> 0)"

text \<open>The first occurrence of a character in a text is at index \<open>i\<close>.\<close>

definition firstAt :: "jsstring \<Rightarrow> code_unit \<Rightarrow> nat \<Rightarrow> bool" where
  "firstAt s c i \<longleftrightarrow> i < length s \<and> s ! i = c \<and> (\<forall>j\<in>{..<i}. s ! j \<noteq> c)"

text \<open>
  The first opening bracket of the text is at index \<open>b\<close> and no opening brace comes
  before it.
\<close>

definition opensWithArray :: "jsstring \<Rightarrow> nat \<Rightarrow> bool" where
  "opensWithArray s b \<longleftrightarrow> firstAt s LBRACKET b \<and> (\<forall>j\<in>{..<b}. s ! j \<noteq> LBRACE)"

text \<open>
  The two branches of \<open>cleanJSON\<close> as functions of the cleaned text: what the first loop
  returns, if it is entered and returns, and the same for the second.
\<close>

definition arrayBranch :: "jsstring \<Rightarrow> jsstring option" where
  "arrayBranch c = (if indexOf c LBRACKET \<noteq> -1 \<and> (indexOf c LBRACE = -1 \<or> indexOf c LBRACKET < indexOf c LBRACE)
                 then balancedFrom LBRACKET RBRACKET c (nat (indexOf c LBRACKET)) else None)"

definition objectBranch :: "jsstring \<Rightarrow> jsstring option" where
  "objectBranch c = (if indexOf c LBRACE \<noteq> -1
                      then balancedFrom LBRACE RBRACE c (nat (indexOf c LBRACE)) else None)"


text \<open>
  What stripping a fence marker comes to, said without the scanning. A text in which the
  marker does not occur is left as it is. Otherwise the text before the first occurrence
  of the marker is kept, the marker and all the white space behind it are left out, and
  the text behind that white space is stripped in the same way.
\<close>

inductive withoutFences :: "jsstring \<Rightarrow> jsstring \<Rightarrow> jsstring \<Rightarrow> bool" for lit where
  no_fence: "\<not> sublist lit t \<Longrightarrow> withoutFences lit t t"
| fence: "\<not> sublist lit (u @ butlast lit) \<Longrightarrow> \<forall>c\<in>set w. is_space c
    \<Longrightarrow> rest = [] \<or> \<not> is_space (hd rest) \<Longrightarrow> withoutFences lit rest r
    \<Longrightarrow> withoutFences lit (u @ lit @ w @ rest) (u @ r)"

text \<open>
  \<open>r\<close> is \<open>s\<close> trimmed: \<open>s\<close> is \<open>r\<close> with white space before and behind it, and \<open>r\<close>
  neither starts nor ends with white space.
\<close>

definition trimmedTo :: "jsstring \<Rightarrow> jsstring \<Rightarrow> bool" where
  "trimmedTo s r \<longleftrightarrow>
     (\<exists>pre post. s = pre @ r @ post \<and> (\<forall>c\<in>set pre. is_space c) \<and> (\<forall>c\<in>set post. is_space c))
     \<and> (r = [] \<or> (\<not> is_space (hd r) \<and> \<not> is_space (last r)))"

text \<open>
  What a profile records for a field of the schema, read off the list of its entries by
  position: the field has no recorded value when there is no profile or no entry carries
  the field's identifier; otherwise its status is the status of the first entry that
  carries the identifier.
\<close>

definition noRecordedValue :: "ParticipantProfile option \<Rightarrow> ProfileField \<Rightarrow> bool" where
  "noRecordedValue profile f \<longleftrightarrow>
     (case profile of
        None \<Rightarrow> True
      | Some p \<Rightarrow> \<not> (\<exists>i<length (fields_PP p). fieldId (fields_PP p ! i) = id_PF f))"

definition recordedStatus ::
  "ParticipantProfile option \<Rightarrow> ProfileField \<Rightarrow> ProfileFieldStatus \<Rightarrow> bool" where
  "recordedStatus profile f st \<longleftrightarrow>
     (case profile of
        None \<Rightarrow> False
      | Some p \<Rightarrow>
          (\<exists>i<length (fields_PP p).
              fieldId (fields_PP p ! i) = id_PF f
            \<and> \<not> (\<exists>j<i. fieldId (fields_PP p ! j) = id_PF f)
            \<and> ProfileFieldValue.status (fields_PP p ! i) = st))"

text \<open>
  A field is unresolved when it has no recorded value or its recorded status is pending or
  vague.
\<close>

definition unresolved :: "ParticipantProfile option \<Rightarrow> ProfileField \<Rightarrow> bool" where
  "unresolved profile f \<longleftrightarrow>
     noRecordedValue profile f \<or> recordedStatus profile f Pending \<or> recordedStatus profile f Vague"

text \<open>The warning block for \<open>n\<close> pending required fields, and the sign it starts with.\<close>

abbreviation WARNING_SIGN :: code_unit where "WARNING_SIGN \<equiv> 0x26A0"

definition warningBlock :: "nat \<Rightarrow> jsstring" where
  \<open>warningBlock n =
     js ''\<newline>'' @ [0x26A0, 0xFE0F] @ js '' '' @ showNat n @
     js '' required fields still pending. Stay in background phase until collected or explicitly refused.''\<close>

text \<open>
  The texts that the template takes over from the study configuration, the participant
  profile and the context: where the prompt shows text that the template did not write.
\<close>

definition interpolatedTexts ::
  "StudyConfig \<Rightarrow> ParticipantProfile option \<Rightarrow> jsstring \<Rightarrow> jsstring list" where
  "interpolatedTexts cfg profile ctx =
     [researchQuestion cfg, description cfg, ctx] @ topicAreas cfg @ coreQuestions cfg @
     map id_PF (profileSchema cfg) @ map extractionHint (profileSchema cfg) @
     (case profile of
        None \<Rightarrow> []
      | Some p \<Rightarrow>
          rawContext p # (case nickname p of None \<Rightarrow> [] | Some n \<Rightarrow> [n]) @
          map (\<lambda>fv. showNullable (value_PFV fv)) (fields_PP p))"

text \<open>
  The value of a field of the parsed object; \<open>undefined\<close> when the object has no such
  field or the parsed value is not an object.
\<close>

definition fieldOf :: "jsval \<Rightarrow> jsstring \<Rightarrow> jsval" where
  "fieldOf parsed k =
     (case parsed of
        JObj kvs \<Rightarrow> (case map_of kvs k of None \<Rightarrow> JUndefined | Some v \<Rightarrow> v)
      | _ \<Rightarrow> JUndefined)"

section \<open>Sample inputs\<close>

text \<open>A study with one required profile field and two core questions.\<close>

definition exampleField :: ProfileField where
  \<open>exampleField =
     \<lparr> id_PF = js ''role'', label = js ''Current Role'',
       extractionHint = js ''Their job title or position'', required = True, options = None \<rparr>\<close>

definition exampleConfig :: StudyConfig where
  \<open>exampleConfig =
     \<lparr> id_SC = js ''study-1'', name_SC = js ''AI Adoption in Healthcare'',
       description = js ''How clinicians take up AI tools'',
       researchQuestion = js ''What drives adoption?'',
       coreQuestions = [js ''Which tools do you use?'', js ''What worries you?''],
       topicAreas = [js ''tools'', js ''trust''],
       profileSchema = [exampleField], aiBehavior = Standard, consentText = js ''I agree.'',
       createdAt = 0, language = None, tone = None \<rparr>\<close>

definition exampleProfile :: "ProfileFieldStatus \<Rightarrow> jsstring option \<Rightarrow> ParticipantProfile" where
  \<open>exampleProfile st v =
     \<lparr> id_PP = js ''p-1'',
       fields_PP = [\<lparr> fieldId = js ''role'', value_PFV = v, status = st, extractedAt = None \<rparr>],
       rawContext = [], timestamp_PP = 0, nickname = None \<rparr>\<close>

text \<open>The same study with a second required field, and a profile with an entry for each.\<close>

definition ageField :: ProfileField where
  \<open>ageField =
     \<lparr> id_PF = js ''age'', label = js ''Age'',
       extractionHint = js ''Their age in years'', required = True, options = None \<rparr>\<close>

definition twoFieldConfig :: StudyConfig where
  "twoFieldConfig = exampleConfig \<lparr> profileSchema := [exampleField, ageField] \<rparr>"

definition twoFieldProfile :: "ProfileFieldStatus \<Rightarrow> ProfileFieldStatus \<Rightarrow> ParticipantProfile" where
  \<open>twoFieldProfile roleStatus ageStatus =
     \<lparr> id_PP = js ''p-2'',
       fields_PP =
         [\<lparr> fieldId = js ''role'', value_PFV = None, status = roleStatus, extractedAt = None \<rparr>,
          \<lparr> fieldId = js ''age'', value_PFV = None, status = ageStatus, extractedAt = None \<rparr>],
       rawContext = [], timestamp_PP = 0, nickname = None \<rparr>\<close>

text \<open>
  A study without profile fields whose description quotes the warning of the prompt.
\<close>

definition quotingConfig :: StudyConfig where
  \<open>quotingConfig =
     exampleConfig
       \<lparr> description :=
           js ''\<newline>'' @ [0x26A0, 0xFE0F] @
           js '' 1 required fields still pending. Stay in background phase until collected or explicitly refused.'',
         profileSchema := [] \<rparr>\<close>

definition exampleProgress :: QuestionProgress where
  "exampleProgress =
     \<lparr> questionsAsked = [], total_QP = 2, currentPhase = Background, isComplete = False \<rparr>"

definition exampleMessage :: "MessageRole \<Rightarrow> jsstring \<Rightarrow> InterviewMessage" where
  "exampleMessage r c = \<lparr> id_IM = [], role = r, content = c, timestamp_IM = 0, isVoice = None \<rparr>"


definition exampleResponse :: "InterviewPhase option \<Rightarrow> ProfileUpdate list \<Rightarrow> bool \<Rightarrow> AIInterviewResponse" where
  \<open>exampleResponse p us c =
     \<lparr> message = js ''Thank you for your time.'', questionAddressed = None, phaseTransition = p,
       profileUpdates = us, shouldConclude = c \<rparr>\<close>

definition exampleSession :: Session where
  "exampleSession = \<lparr> profile_S = exampleProfile Pending None, progress_S = initializeProgress 2 \<rparr>"

section \<open>Properties of cleanJSON\<close>

lemma depthAfter_0: "depthAfter op cl s 0 = 0"
  by (simp add: depthAfter_def)

lemma depthAfter_Cons:
  "depthAfter op cl (c # cs) (Suc n) =
     (if c = op then 1 else 0) - (if c = cl then 1 else 0) + depthAfter op cl cs n"
  by (simp add: depthAfter_def)

lemma scanDepth_None_iff:
  "scanDepth op cl d s = None \<longleftrightarrow> (\<forall>n\<in>{1..length s}. d + depthAfter op cl s n \<noteq> 0)"
proof (induction s arbitrary: d)
  case Nil
  then show ?case by simp
next
  case (Cons c cs)
  define d2 where "d2 = d + (if c = op then 1 else 0) - (if c = cl then 1 else 0)"
  have step: "scanDepth op cl d (c # cs) =
      (if d2 = 0 then Some 1 else map_option Suc (scanDepth op cl d2 cs))"
    by (simp add: d2_def Let_def)
  have shift: "d + depthAfter op cl (c # cs) (Suc n) = d2 + depthAfter op cl cs n" for n
    by (simp add: depthAfter_Cons d2_def)
  have split: "(\<forall>n\<in>{1..length (c # cs)}. d + depthAfter op cl (c # cs) n \<noteq> 0) \<longleftrightarrow>
      d2 \<noteq> 0 \<and> (\<forall>n\<in>{1..length cs}. d2 + depthAfter op cl cs n \<noteq> 0)"
  proof
    assume a: "\<forall>n\<in>{1..length (c # cs)}. d + depthAfter op cl (c # cs) n \<noteq> 0"
    have "d2 \<noteq> 0"
      using a[rule_format, of "Suc 0"] shift[of 0] by (simp add: depthAfter_0)
    moreover have "d2 + depthAfter op cl cs n \<noteq> 0" if "n \<in> {1..length cs}" for n
      using a[rule_format, of "Suc n"] that shift[of n] by simp
    ultimately show "d2 \<noteq> 0 \<and> (\<forall>n\<in>{1..length cs}. d2 + depthAfter op cl cs n \<noteq> 0)"
      by blast
  next
    assume b: "d2 \<noteq> 0 \<and> (\<forall>n\<in>{1..length cs}. d2 + depthAfter op cl cs n \<noteq> 0)"
    show "\<forall>n\<in>{1..length (c # cs)}. d + depthAfter op cl (c # cs) n \<noteq> 0"
    proof
      fix n assume n: "n \<in> {1..length (c # cs)}"
      then obtain k where k: "n = Suc k" by (cases n) auto
      show "d + depthAfter op cl (c # cs) n \<noteq> 0"
      proof (cases k)
        case 0
        with b k shift[of 0] show ?thesis by (simp add: depthAfter_0)
      next
        case (Suc j)
        with n k have "k \<in> {1..length cs}" by simp
        with b have "d2 + depthAfter op cl cs k \<noteq> 0" by blast
        with k shift[of k] show ?thesis by simp
      qed
    qed
  qed
  show ?case
    unfolding step split using Cons.IH[of d2] by simp
qed

lemma scanDepth_Some_iff:
  "scanDepth op cl d s = Some n \<longleftrightarrow>
     n \<in> {1..length s} \<and> d + depthAfter op cl s n = 0
     \<and> (\<forall>m\<in>{1..<n}. d + depthAfter op cl s m \<noteq> 0)"
proof (induction s arbitrary: d n)
  case Nil
  then show ?case by simp
next
  case (Cons c cs)
  define d2 where "d2 = d + (if c = op then 1 else 0) - (if c = cl then 1 else 0)"
  have step: "scanDepth op cl d (c # cs) =
      (if d2 = 0 then Some 1 else map_option Suc (scanDepth op cl d2 cs))"
    by (simp add: d2_def Let_def)
  have shift: "d + depthAfter op cl (c # cs) (Suc k) = d2 + depthAfter op cl cs k" for k
    by (simp add: depthAfter_Cons d2_def)
  have one: "d + depthAfter op cl (c # cs) (Suc 0) = d2"
    using shift[of 0] by (simp add: depthAfter_0)
  show ?case
  proof (cases "d2 = 0")
    case True
    have "(n \<in> {1..length (c # cs)} \<and> d + depthAfter op cl (c # cs) n = 0
        \<and> (\<forall>m\<in>{1..<n}. d + depthAfter op cl (c # cs) m \<noteq> 0)) \<longleftrightarrow> n = 1"
    proof
      assume a: "n \<in> {1..length (c # cs)} \<and> d + depthAfter op cl (c # cs) n = 0
        \<and> (\<forall>m\<in>{1..<n}. d + depthAfter op cl (c # cs) m \<noteq> 0)"
      show "n = 1"
      proof (rule ccontr)
        assume "n \<noteq> 1"
        with a have "Suc 0 \<in> {1..<n}" by auto
        with a have "d + depthAfter op cl (c # cs) (Suc 0) \<noteq> 0" by blast
        with one True show False by simp
      qed
    next
      assume "n = 1"
      with one True show "n \<in> {1..length (c # cs)} \<and> d + depthAfter op cl (c # cs) n = 0
        \<and> (\<forall>m\<in>{1..<n}. d + depthAfter op cl (c # cs) m \<noteq> 0)"
        by simp
    qed
    with True step show ?thesis by auto
  next
    case False
    have "(n \<in> {1..length (c # cs)} \<and> d + depthAfter op cl (c # cs) n = 0
        \<and> (\<forall>m\<in>{1..<n}. d + depthAfter op cl (c # cs) m \<noteq> 0)) \<longleftrightarrow>
      (\<exists>k. n = Suc k \<and> k \<in> {1..length cs} \<and> d2 + depthAfter op cl cs k = 0
        \<and> (\<forall>m\<in>{1..<k}. d2 + depthAfter op cl cs m \<noteq> 0))" (is "?L \<longleftrightarrow> ?R")
    proof
      assume a: ?L
      then obtain k where k: "n = Suc k" by (cases n) auto
      have "k \<noteq> 0"
      proof
        assume "k = 0"
        with a k have "d + depthAfter op cl (c # cs) (Suc 0) = 0" by simp
        with one False show False by simp
      qed
      with a k have k1: "k \<in> {1..length cs}" by simp
      have k2: "d2 + depthAfter op cl cs k = 0"
        using a k shift[of k] by simp
      have k3: "d2 + depthAfter op cl cs m \<noteq> 0" if "m \<in> {1..<k}" for m
      proof -
        from that k have "Suc m \<in> {1..<n}" by simp
        with a have "d + depthAfter op cl (c # cs) (Suc m) \<noteq> 0" by blast
        with shift[of m] show ?thesis by simp
      qed
      from k k1 k2 k3 show ?R by blast
    next
      assume ?R
      then obtain k where k: "n = Suc k" "k \<in> {1..length cs}" "d2 + depthAfter op cl cs k = 0"
        and k3: "\<forall>m\<in>{1..<k}. d2 + depthAfter op cl cs m \<noteq> 0" by blast
      have "d + depthAfter op cl (c # cs) m \<noteq> 0" if "m \<in> {1..<n}" for m
      proof -
        from that obtain j where j: "m = Suc j" by (cases m) auto
        show ?thesis
        proof (cases j)
          case 0
          with j one False show ?thesis by simp
        next
          case (Suc i)
          with that j k have "j \<in> {1..<k}" by simp
          with k3 have "d2 + depthAfter op cl cs j \<noteq> 0" by blast
          with j shift[of j] show ?thesis by simp
        qed
      qed
      with k shift[of k] show ?L by simp
    qed
    moreover have "scanDepth op cl d (c # cs) = Some n \<longleftrightarrow>
        (\<exists>k. n = Suc k \<and> scanDepth op cl d2 cs = Some k)"
      using False step by auto
    ultimately show ?thesis
      using Cons.IH[of d2] by simp
  qed
qed

lemma indexOf_ge: "- 1 \<le> indexOf s c"
  by (induction s) (auto simp: Let_def)

lemma indexOf_absent: "indexOf s c = - 1 \<longleftrightarrow> c \<notin> set s"
proof (induction s)
  case Nil
  then show ?case by simp
next
  case (Cons x xs)
  have "indexOf xs c + 1 \<noteq> - 1"
    using indexOf_ge[of xs c] by linarith
  with Cons show ?case by (auto simp: Let_def)
qed

lemma firstAt_Cons:
  "firstAt (x # xs) c i \<longleftrightarrow> (if x = c then i = 0 else (\<exists>k. i = Suc k \<and> firstAt xs c k))"
proof (cases i)
  case 0
  then show ?thesis by (auto simp: firstAt_def)
next
  case (Suc k)
  have "(\<forall>j\<in>{..<Suc k}. (x # xs) ! j \<noteq> c) \<longleftrightarrow> x \<noteq> c \<and> (\<forall>j\<in>{..<k}. xs ! j \<noteq> c)"
  proof
    assume a: "\<forall>j\<in>{..<Suc k}. (x # xs) ! j \<noteq> c"
    have "x \<noteq> c" using a[rule_format, of 0] by simp
    moreover have "xs ! j \<noteq> c" if "j \<in> {..<k}" for j
      using a[rule_format, of "Suc j"] that by simp
    ultimately show "x \<noteq> c \<and> (\<forall>j\<in>{..<k}. xs ! j \<noteq> c)" by blast
  next
    assume b: "x \<noteq> c \<and> (\<forall>j\<in>{..<k}. xs ! j \<noteq> c)"
    show "\<forall>j\<in>{..<Suc k}. (x # xs) ! j \<noteq> c"
    proof
      fix j assume "j \<in> {..<Suc k}"
      with b show "(x # xs) ! j \<noteq> c" by (cases j) auto
    qed
  qed
  with Suc show ?thesis by (auto simp: firstAt_def)
qed

lemma indexOf_first: "indexOf s c = int i \<longleftrightarrow> firstAt s c i"
proof (induction s arbitrary: i)
  case Nil
  then show ?case by (simp add: firstAt_def)
next
  case (Cons x xs)
  show ?case
  proof (cases "x = c")
    case True
    then show ?thesis by (simp add: firstAt_Cons)
  next
    case False
    show ?thesis
    proof (cases "indexOf xs c = - 1")
      case True
      then have "c \<notin> set xs" by (simp add: indexOf_absent)
      then have "\<not> firstAt xs c k" for k
        by (auto simp: firstAt_def)
      with False True show ?thesis by (simp add: firstAt_Cons)
    next
      case nz: False
      with indexOf_ge[of xs c] have "0 \<le> indexOf xs c" by linarith
      then obtain k0 where k0: "indexOf xs c = int k0"
        using nonneg_int_cases by blast
      have "indexOf (x # xs) c = int (Suc k0)"
        using False nz k0 by (simp add: Let_def)
      moreover have "firstAt xs c k \<longleftrightarrow> k = k0" for k
        using Cons.IH[of k] k0 by auto
      ultimately show ?thesis
        using False by (auto simp: firstAt_Cons)
    qed
  qed
qed

lemma indexOf_cases:
  obtains (absent) "indexOf s c = - 1" "c \<notin> set s"
  | (found) i where "indexOf s c = int i" "firstAt s c i"
proof (cases "indexOf s c = - 1")
  case True
  then show ?thesis using absent by (simp add: indexOf_absent)
next
  case False
  with indexOf_ge[of s c] have "0 \<le> indexOf s c" by linarith
  then obtain i where "indexOf s c = int i"
    using nonneg_int_cases by blast
  then show ?thesis using found by (simp add: indexOf_first)
qed

lemma firstAt_unique: "firstAt s c i \<Longrightarrow> firstAt s c j \<Longrightarrow> i = j"
  using indexOf_first[of s c i] indexOf_first[of s c j] by simp

lemma firstAt_mem: "firstAt s c i \<Longrightarrow> c \<in> set s"
  by (auto simp: firstAt_def)

lemma none_before_iff:
  assumes "firstAt s c i" and "s ! i \<noteq> c'"
  shows "(\<forall>j\<in>{..<i}. s ! j \<noteq> c') \<longleftrightarrow> (indexOf s c' = - 1 \<or> int i < indexOf s c')"
proof (cases rule: indexOf_cases[of s c'])
  case absent
  then have "s ! j \<noteq> c'" if "j \<in> {..<i}" for j
    using that assms(1) by (auto simp: firstAt_def)
  with absent show ?thesis by simp
next
  case (found e)
  have "e \<noteq> i"
    using found(2) assms(2) by (auto simp: firstAt_def)
  show ?thesis
  proof
    assume a: "\<forall>j\<in>{..<i}. s ! j \<noteq> c'"
    have "\<not> e < i"
      using a found(2) by (auto simp: firstAt_def)
    with \<open>e \<noteq> i\<close> found(1) show "indexOf s c' = - 1 \<or> int i < indexOf s c'" by simp
  next
    assume "indexOf s c' = - 1 \<or> int i < indexOf s c'"
    with found(1) have "i < e" by simp
    with found(2) show "\<forall>j\<in>{..<i}. s ! j \<noteq> c'"
      by (auto simp: firstAt_def)
  qed
qed

lemma opensWithArray_iff:
  "opensWithArray s b \<longleftrightarrow>
     indexOf s LBRACKET = int b \<and> (indexOf s LBRACE = - 1 \<or> int b < indexOf s LBRACE)"
proof (cases "firstAt s LBRACKET b")
  case True
  then have "s ! b \<noteq> LBRACE" by (simp add: firstAt_def)
  from none_before_iff[OF True this] True show ?thesis
    by (simp add: opensWithArray_def indexOf_first)
next
  case False
  then show ?thesis by (simp add: opensWithArray_def indexOf_first)
qed

lemma balancedFrom_Some_iff:
  "balancedFrom op cl s first = Some r \<longleftrightarrow>
     (\<exists>n. returnsToZeroAt op cl (drop first s) n \<and> r = take n (drop first s))"
  using scanDepth_Some_iff[of op cl 0 "drop first s"]
  by (auto simp: balancedFrom_def returnsToZeroAt_def)

lemma balancedFrom_None_iff:
  "balancedFrom op cl s first = None \<longleftrightarrow> neverReturnsToZero op cl (drop first s)"
  using scanDepth_None_iff[of op cl 0 "drop first s"]
  by (simp add: balancedFrom_def neverReturnsToZero_def)

lemma returns_not_never:
  "returnsToZeroAt op cl s n \<Longrightarrow> \<not> neverReturnsToZero op cl s"
  by (auto simp: returnsToZeroAt_def neverReturnsToZero_def)

lemma cleanJSON_branches:
  "text \<noteq> [] \<Longrightarrow> cleanJSON text =
     (case arrayBranch (cleanFences text) of Some r \<Rightarrow> r
      | None \<Rightarrow> (case objectBranch (cleanFences text) of Some r \<Rightarrow> r | None \<Rightarrow> cleanFences text))"
proof -
  assume "text \<noteq> []"
  then have "(text = []) = False" by simp
  then show ?thesis
    by (simp only: cleanJSON_def arrayBranch_def objectBranch_def Let_def if_False)
qed

lemma arrayBranch_Some:
  assumes "opensWithArray c b" and "returnsToZeroAt LBRACKET RBRACKET (drop b c) n"
  shows "arrayBranch c = Some (take n (drop b c))"
proof -
  from assms(1) have i: "indexOf c LBRACKET = int b"
    and lt: "indexOf c LBRACE = - 1 \<or> int b < indexOf c LBRACE"
    by (simp_all add: opensWithArray_iff)
  have "scanDepth LBRACKET RBRACKET 0 (drop b c) = Some n"
    using assms(2) scanDepth_Some_iff[of LBRACKET RBRACKET 0 "drop b c" n]
    by (simp add: returnsToZeroAt_def)
  then have "balancedFrom LBRACKET RBRACKET c b = Some (take n (drop b c))"
    by (simp add: balancedFrom_def)
  with i lt show ?thesis
    by (simp add: arrayBranch_def)
qed

lemma arrayBranch_None:
  assumes "\<forall>b. opensWithArray c b \<longrightarrow> neverReturnsToZero LBRACKET RBRACKET (drop b c)"
  shows "arrayBranch c = None"
proof (cases "indexOf c LBRACKET \<noteq> -1 \<and> (indexOf c LBRACE = -1 \<or> indexOf c LBRACKET < indexOf c LBRACE)")
  case True
  with indexOf_ge[of c LBRACKET] have "0 \<le> indexOf c LBRACKET" by linarith
  then obtain b where b: "indexOf c LBRACKET = int b"
    using nonneg_int_cases by blast
  with True have "opensWithArray c b"
    by (simp add: opensWithArray_iff)
  with assms have "neverReturnsToZero LBRACKET RBRACKET (drop b c)" by blast
  then have "balancedFrom LBRACKET RBRACKET c b = None"
    by (simp add: balancedFrom_None_iff)
  with b show ?thesis by (simp add: arrayBranch_def)
next
  case False
  then show ?thesis by (auto simp add: arrayBranch_def)
qed

lemma objectBranch_Some:
  assumes "firstAt c LBRACE e" and "returnsToZeroAt LBRACE RBRACE (drop e c) n"
  shows "objectBranch c = Some (take n (drop e c))"
proof -
  from assms(1) have i: "indexOf c LBRACE = int e"
    by (simp add: indexOf_first)
  have "balancedFrom LBRACE RBRACE c e = Some (take n (drop e c))"
    using assms(2) by (auto simp: balancedFrom_Some_iff)
  with i show ?thesis
    by (simp add: objectBranch_def)
qed

lemma objectBranch_None:
  assumes "\<forall>e. firstAt c LBRACE e \<longrightarrow> neverReturnsToZero LBRACE RBRACE (drop e c)"
  shows "objectBranch c = None"
proof (cases rule: indexOf_cases[of c LBRACE])
  case absent
  then show ?thesis by (simp add: objectBranch_def)
next
  case (found e)
  with assms have "neverReturnsToZero LBRACE RBRACE (drop e c)" by blast
  then have "balancedFrom LBRACE RBRACE c e = None"
    by (simp add: balancedFrom_None_iff)
  with found(1) show ?thesis by (simp add: objectBranch_def)
qed


lemma cleanFences_Nil: "cleanFences [] = []"
  by (simp add: cleanFences_def trim_def)

lemma not_opensWithArray:
  assumes "firstAt c LBRACE e" and "\<forall>j\<in>{..<e}. c ! j \<noteq> LBRACKET"
  shows "\<not> opensWithArray c b"
proof
  assume o: "opensWithArray c b"
  then have fb: "firstAt c LBRACKET b" and nb: "\<forall>j\<in>{..<b}. c ! j \<noteq> LBRACE"
    by (simp_all add: opensWithArray_def)
  from assms(1) have ce: "c ! e = LBRACE" by (simp add: firstAt_def)
  from fb have cb: "c ! b = LBRACKET" by (simp add: firstAt_def)
  have "\<not> e < b" using nb ce by auto
  moreover have "e \<noteq> b" using ce cb by auto
  ultimately have "b < e" by simp
  with assms(2) cb show False by auto
qed

lemma braces_return: \<open>\<not> neverReturnsToZero LBRACE RBRACE (js ''{}'')\<close>
  using scanDepth_None_iff[of LBRACE RBRACE 0 "js ''{}''"]
  by (simp add: neverReturnsToZero_def js_def Let_def)

lemma prefix_butlast_clash:
  assumes "lit \<noteq> []" and "prefix lit (v @ lit @ s)" and "v \<noteq> []"
  shows "prefix lit (v @ butlast lit)"
proof -
  have "lit @ s = butlast lit @ (last lit # s)"
    using assms(1) by (metis append.assoc append_butlast_last_id append_Cons append_Nil)
  then have "v @ lit @ s = (v @ butlast lit) @ (last lit # s)"
    by simp
  then have "prefix (v @ butlast lit) (v @ lit @ s)"
    by (rule prefixI)
  moreover have "length lit \<le> length (v @ butlast lit)"
    using assms(1,3) by (cases v) simp_all
  ultimately show ?thesis
    using assms(2) by (metis prefix_length_prefix)
qed

lemma stripFence_no_match:
  assumes "\<not> sublist lit t"
  shows "stripFence lit t = t"
  using assms
proof (induction t)
  case Nil
  then show ?case by simp
next
  case (Cons c cs)
  from Cons.prems have "\<not> prefix lit (c # cs)" and "\<not> sublist lit cs"
    by (simp_all add: sublist_Cons_right)
  with Cons.IH show ?case by simp
qed

lemma stripFence_before_first:
  assumes "lit \<noteq> []" and "\<not> sublist lit (u @ butlast lit)"
  shows "stripFence lit (u @ lit @ s) = u @ stripFence lit (lit @ s)"
  using assms(2)
proof (induction u)
  case Nil
  then show ?case by simp
next
  case (Cons a u)
  have "\<not> prefix lit ((a # u) @ lit @ s)"
  proof
    assume "prefix lit ((a # u) @ lit @ s)"
    then have "prefix lit ((a # u) @ butlast lit)"
      using assms(1) by (intro prefix_butlast_clash) simp_all
    then have "sublist lit ((a # u) @ butlast lit)"
      by (rule prefix_imp_sublist)
    with Cons.prems show False by simp
  qed
  moreover have "\<not> sublist lit (u @ butlast lit)"
    using Cons.prems by (simp add: sublist_Cons_right)
  ultimately show ?case
    using Cons.IH by simp
qed

lemma stripFence_at_match:
  assumes "lit \<noteq> []"
  shows "stripFence lit (lit @ s) = stripFence lit (dropWhile is_space s)"
proof -
  obtain c cs where l: "lit @ s = c # cs"
    using assms by (cases "lit @ s") simp_all
  have "prefix lit (c # cs)"
    using l by (metis prefixI)
  then have "stripFence lit (c # cs) = stripFence lit (dropWhile is_space (drop (length lit) (c # cs)))"
    using assms by simp
  then show ?thesis
    using l by (metis append_eq_conv_conj)
qed

lemma dropWhile_spaces:
  assumes "\<forall>c\<in>set w. is_space c" and "rest = [] \<or> \<not> is_space (hd rest)"
  shows "dropWhile is_space (w @ rest) = rest"
proof -
  have "dropWhile is_space (w @ rest) = dropWhile is_space rest"
    using assms(1) by (simp add: dropWhile_append2)
  also have "\<dots> = rest"
    using assms(2) by (cases rest) simp_all
  finally show ?thesis .
qed

lemma withoutFences_stripFence:
  assumes "withoutFences lit t r" and "lit \<noteq> []"
  shows "stripFence lit t = r"
  using assms
proof (induction rule: withoutFences.induct)
  case (no_fence t)
  then show ?case by (simp add: stripFence_no_match)
next
  case (fence u w rest r)
  have "stripFence lit (u @ lit @ w @ rest) = u @ stripFence lit (lit @ w @ rest)"
    using fence.prems fence.hyps(1) by (rule stripFence_before_first)
  also have "\<dots> = u @ stripFence lit (dropWhile is_space (w @ rest))"
    using fence.prems by (simp add: stripFence_at_match)
  also have "\<dots> = u @ stripFence lit rest"
    by (simp only: dropWhile_spaces[OF fence.hyps(2,3)])
  finally show ?case
    using fence.IH fence.prems by simp
qed

lemma first_fence:
  assumes "sublist lit t" and "lit \<noteq> []"
  shows "\<exists>u s. t = u @ lit @ s \<and> \<not> sublist lit (u @ butlast lit)"
  using assms(1)
proof (induction t)
  case Nil
  with assms(2) show ?case by simp
next
  case (Cons a t)
  show ?case
  proof (cases "prefix lit (a # t)")
    case True
    then obtain s where "a # t = [] @ lit @ s"
      by (auto simp: prefix_def)
    moreover have "\<not> sublist lit ([] @ butlast lit)"
    proof
      assume "sublist lit ([] @ butlast lit)"
      then have "length lit \<le> length (butlast lit)"
        using sublist_length_le by fastforce
      with assms(2) show False
        by (cases lit) (simp_all del: butlast.simps)
    qed
    ultimately show ?thesis by blast
  next
    case False
    with Cons.prems have "sublist lit t"
      by (simp add: sublist_Cons_right)
    with Cons.IH obtain u s where t: "t = u @ lit @ s" and n: "\<not> sublist lit (u @ butlast lit)"
      by blast
    have "\<not> prefix lit ((a # u) @ butlast lit)"
    proof
      assume p: "prefix lit ((a # u) @ butlast lit)"
      have "lit @ s = butlast lit @ (last lit # s)"
        using assms(2) by (metis append.assoc append_butlast_last_id append_Cons append_Nil)
      then have "a # t = ((a # u) @ butlast lit) @ (last lit # s)"
        using t by simp
      then have "prefix ((a # u) @ butlast lit) (a # t)"
        by (rule prefixI)
      with p have "prefix lit (a # t)"
        by (rule prefix_order.trans)
      with False show False by simp
    qed
    with n have "\<not> sublist lit ((a # u) @ butlast lit)"
      by (simp add: sublist_Cons_right)
    moreover have "a # t = (a # u) @ lit @ s"
      using t by simp
    ultimately show ?thesis by blast
  qed
qed

lemma stripFence_withoutFences:
  assumes "lit \<noteq> []"
  shows "withoutFences lit t (stripFence lit t)"
proof (induction t rule: length_induct)
  case (1 t)
  show ?case
  proof (cases "sublist lit t")
    case False
    then show ?thesis
      by (simp add: stripFence_no_match withoutFences.no_fence)
  next
    case True
    then obtain u s where t: "t = u @ lit @ s" and n: "\<not> sublist lit (u @ butlast lit)"
      using first_fence[OF _ assms] by blast
    let ?w = "takeWhile is_space s" and ?rest = "dropWhile is_space s"
    have s: "s = ?w @ ?rest" by simp
    have w: "\<forall>c\<in>set ?w. is_space c"
      by (auto dest: set_takeWhileD)
    have r: "?rest = [] \<or> \<not> is_space (hd ?rest)"
      using hd_dropWhile[of is_space s] by blast
    have "length ?rest < length t"
    proof -
      have "length ?rest \<le> length s" by (rule length_dropWhile_le)
      also have "\<dots> < length t" using t assms by simp
      finally show ?thesis .
    qed
    with 1 have "withoutFences lit ?rest (stripFence lit ?rest)"
      by blast
    with n w r have d: "withoutFences lit (u @ lit @ ?w @ ?rest) (u @ stripFence lit ?rest)"
      by (rule withoutFences.fence)
    then have "stripFence lit (u @ lit @ ?w @ ?rest) = u @ stripFence lit ?rest"
      using assms by (rule withoutFences_stripFence)
    with d show ?thesis
      using t by simp
  qed
qed

lemma trimmedTo_trim: "trimmedTo s (trim s)"
proof -
  let ?m = "dropWhile is_space s"
  let ?pre = "takeWhile is_space s"
  let ?post = "rev (takeWhile is_space (rev ?m))"
  have r: "trim s = rev (dropWhile is_space (rev ?m))"
    by (simp add: trim_def)
  have "?m = rev (rev ?m)"
    by simp
  also have "\<dots> = rev (takeWhile is_space (rev ?m) @ dropWhile is_space (rev ?m))"
    by (simp only: takeWhile_dropWhile_id)
  also have "\<dots> = rev (dropWhile is_space (rev ?m)) @ ?post"
    by (rule rev_append)
  finally have m: "?m = trim s @ ?post"
    by (simp only: r)
  have "s = ?pre @ ?m" by simp
  with m have "s = ?pre @ trim s @ ?post" by simp
  moreover have "\<forall>c\<in>set ?pre. is_space c"
    by (auto dest: set_takeWhileD)
  moreover have "\<forall>c\<in>set ?post. is_space c"
    by (auto dest: set_takeWhileD)
  moreover have "\<not> is_space (hd (trim s)) \<and> \<not> is_space (last (trim s))" if ne: "trim s \<noteq> []"
  proof
    have "?m \<noteq> []" using m ne by (metis append_is_Nil_conv)
    then have "\<not> is_space (hd ?m)"
      using hd_dropWhile[of is_space s] by blast
    moreover have "hd ?m = hd (trim s)"
      using m ne by (metis hd_append2)
    ultimately show "\<not> is_space (hd (trim s))" by simp
    have d: "dropWhile is_space (rev ?m) \<noteq> []"
      using r ne by simp
    then have "\<not> is_space (hd (dropWhile is_space (rev ?m)))"
      using hd_dropWhile[of is_space "rev ?m"] by blast
    moreover have "last (trim s) = hd (dropWhile is_space (rev ?m))"
      using r d by (simp add: last_rev)
    ultimately show "\<not> is_space (last (trim s))" by simp
  qed
  ultimately show ?thesis
    unfolding trimmedTo_def by blast
qed

lemma trimmedTo_unique:
  assumes "trimmedTo s r"
  shows "trim s = r"
proof -
  from assms obtain pre post where s: "s = pre @ r @ post"
    and pre: "\<forall>c\<in>set pre. is_space c" and post: "\<forall>c\<in>set post. is_space c"
    and ends: "r = [] \<or> (\<not> is_space (hd r) \<and> \<not> is_space (last r))"
    unfolding trimmedTo_def by blast
  show ?thesis
  proof (cases "r = []")
    case True
    with s pre post have "\<forall>c\<in>set s. is_space c" by auto
    then have dn: "dropWhile is_space s = []" by (simp add: dropWhile_eq_Nil_conv)
    show ?thesis
      unfolding trim_def dn using True by simp
  next
    case False
    with ends have h: "\<not> is_space (hd r)" and l: "\<not> is_space (last r)" by simp_all
    have "dropWhile is_space s = dropWhile is_space (r @ post)"
      using s pre by (simp add: dropWhile_append2)
    also have "\<dots> = r @ post"
      using False h by (cases r) simp_all
    finally have d: "dropWhile is_space s = r @ post" .
    have "\<And>x. x \<in> set (rev post) \<Longrightarrow> is_space x"
      using post by simp
    then have "dropWhile is_space (rev post @ rev r) = dropWhile is_space (rev r)"
      by (rule dropWhile_append2)
    then have "dropWhile is_space (rev (r @ post)) = dropWhile is_space (rev r)"
      by simp
    also have "\<dots> = rev r"
      using False l by (cases "rev r") (simp_all add: last_rev hd_rev)
    finally show ?thesis
      using d by (simp add: trim_def)
  qed
qed


lemma withoutFences_unique:
  assumes "withoutFences lit t r" and "withoutFences lit t r'" and "lit \<noteq> []"
  shows "r = r'"
  using withoutFences_stripFence[OF assms(1,3)] withoutFences_stripFence[OF assms(2,3)] by simp

lemma fence_literals: \<open>js ''```json'' \<noteq> []\<close> \<open>js ''```'' \<noteq> []\<close>
  by (simp_all add: js_def)

lemma cleanFences_spec:
  \<open>\<exists>a b. withoutFences (js ''```json'') input a \<and> withoutFences (js ''```'') a b
       \<and> trimmedTo b (cleanFences input)\<close>
  unfolding cleanFences_def
  using stripFence_withoutFences[OF fence_literals(1)] stripFence_withoutFences[OF fence_literals(2)]
    trimmedTo_trim
  by blast

lemma cleanFences_unique:
  assumes \<open>withoutFences (js ''```json'') input a\<close> and \<open>withoutFences (js ''```'') a b\<close>
    and "trimmedTo b r"
  shows "r = cleanFences input"
  using withoutFences_stripFence[OF assms(1) fence_literals(1)]
    withoutFences_stripFence[OF assms(2) fence_literals(2)] trimmedTo_unique[OF assms(3)]
  by (simp add: cleanFences_def)

lemma no_structure_not_braces:
  assumes "\<forall>e. firstAt c LBRACE e \<longrightarrow> neverReturnsToZero LBRACE RBRACE (drop e c)"
  shows \<open>c \<noteq> js ''{}''\<close>
proof
  assume c: \<open>c = js ''{}''\<close>
  then have "firstAt c LBRACE 0"
    by (simp add: firstAt_def js_def)
  with assms have "neverReturnsToZero LBRACE RBRACE (drop 0 c)"
    by blast
  with c braces_return show False by simp
qed

text \<open>
  Claim C3, as amended. \<open>cleanJSON\<close> first leaves out every code-fence marker
  \<open>```json\<close> and then every remaining marker \<open>```\<close>, each with the white space behind it,
  and trims the text; the cleaned text is the only one so obtained. On the empty input it
  returns \<open>{}\<close>. Otherwise, when the first opening bracket of the cleaned text has no
  opening brace before it and the bracket depth from it returns to zero, the result is the
  text from that bracket to the place where the depth first returns to zero; failing that,
  when there is an opening brace and the brace depth from the first one returns to zero,
  the result is the text from that brace to the place where the depth first returns to
  zero; failing both, the result is the whole cleaned text, which is then not \<open>{}\<close>.
\<close>

theorem cleanJSON_extracts:
  fixes input :: jsstring
  defines "c \<equiv> cleanFences input"
  shows \<open>(\<exists>a b. withoutFences (js ''```json'') input a \<and> withoutFences (js ''```'') a b
            \<and> trimmedTo b c) \<and>
    (\<forall>a b r. withoutFences (js ''```json'') input a \<and> withoutFences (js ''```'') a b
            \<and> trimmedTo b r \<longrightarrow> r = c) \<and>
    (input = [] \<longrightarrow> cleanJSON input = js ''{}'') \<and>
    (\<forall>b n. input \<noteq> [] \<and> opensWithArray c b \<and> returnsToZeroAt LBRACKET RBRACKET (drop b c) n
        \<longrightarrow> cleanJSON input = take n (drop b c)) \<and>
    (\<forall>e n. input \<noteq> []
        \<and> (\<forall>b. opensWithArray c b \<longrightarrow> neverReturnsToZero LBRACKET RBRACKET (drop b c))
        \<and> firstAt c LBRACE e \<and> returnsToZeroAt LBRACE RBRACE (drop e c) n
        \<longrightarrow> cleanJSON input = take n (drop e c)) \<and>
    (input \<noteq> []
        \<and> (\<forall>b. opensWithArray c b \<longrightarrow> neverReturnsToZero LBRACKET RBRACKET (drop b c))
        \<and> (\<forall>e. firstAt c LBRACE e \<longrightarrow> neverReturnsToZero LBRACE RBRACE (drop e c))
        \<longrightarrow> cleanJSON input = c \<and> cleanJSON input \<noteq> js ''{}'')\<close>
proof (intro conjI allI impI)
  show \<open>\<exists>a b. withoutFences (js ''```json'') input a \<and> withoutFences (js ''```'') a b
            \<and> trimmedTo b c\<close>
    unfolding c_def by (rule cleanFences_spec)
next
  fix a b r
  assume \<open>withoutFences (js ''```json'') input a \<and> withoutFences (js ''```'') a b \<and> trimmedTo b r\<close>
  then show "r = c"
    unfolding c_def using cleanFences_unique by blast
next
  assume "input = []"
  then show \<open>cleanJSON input = js ''{}''\<close> by (simp add: cleanJSON_def)
next
  fix b n
  assume "input \<noteq> [] \<and> opensWithArray c b \<and> returnsToZeroAt LBRACKET RBRACKET (drop b c) n"
  then show "cleanJSON input = take n (drop b c)"
    using arrayBranch_Some[of c b n] by (simp add: cleanJSON_branches c_def)
next
  fix e n
  assume "input \<noteq> []
        \<and> (\<forall>b. opensWithArray c b \<longrightarrow> neverReturnsToZero LBRACKET RBRACKET (drop b c))
        \<and> firstAt c LBRACE e \<and> returnsToZeroAt LBRACE RBRACE (drop e c) n"
  then show "cleanJSON input = take n (drop e c)"
    using arrayBranch_None[of c] objectBranch_Some[of c e n] by (simp add: cleanJSON_branches c_def)
next
  assume h: "input \<noteq> []
        \<and> (\<forall>b. opensWithArray c b \<longrightarrow> neverReturnsToZero LBRACKET RBRACKET (drop b c))
        \<and> (\<forall>e. firstAt c LBRACE e \<longrightarrow> neverReturnsToZero LBRACE RBRACE (drop e c))"
  then show eq: "cleanJSON input = c"
    using arrayBranch_None[of c] objectBranch_None[of c] by (simp add: cleanJSON_branches c_def)
  from h have \<open>c \<noteq> js ''{}''\<close>
    by (intro no_structure_not_braces) simp
  with eq show \<open>cleanJSON input \<noteq> js ''{}''\<close>
    by simp
qed

lemma absent_char_no_sublist: "x \<in> set lit \<Longrightarrow> x \<notin> set t \<Longrightarrow> \<not> sublist lit t"
  using set_mono_sublist by fastforce

lemma withoutFences_once:
  assumes "\<not> sublist lit (u @ butlast lit)" and "\<forall>c\<in>set w. is_space c"
    and "rest = [] \<or> \<not> is_space (hd rest)" and "\<not> sublist lit rest"
    and "t = u @ lit @ w @ rest"
  shows "withoutFences lit t (u @ rest)"
  unfolding assms(5) using assms(1-3) withoutFences.no_fence[OF assms(4)]
  by (rule withoutFences.fence)

theorem cleanJSON_extracts_witness:
  \<open>cleanJSON [] = js ''{}''
   \<and> cleanJSON (js ''Here: [1,[2]] ok'') = js ''[1,[2]]''
   \<and> cleanJSON (js ''[ {"a":1} ```'') = js ''{"a":1}''
   \<and> cleanJSON (js ''plain text'') = js ''plain text''
   \<and> cleanFences (js ''```json\<newline>[1,2]\<newline>``` '') = js ''[1,2]''
   \<and> cleanJSON (js ''```json\<newline>[1,2]\<newline>``` '') = js ''[1,2]''\<close>
proof -
  let ?a = \<open>js ''Here: [1,[2]] ok''\<close>
  let ?o = \<open>js ''[ {"a":1} ```''\<close>
  let ?oc = \<open>js ''[ {"a":1}''\<close>
  let ?p = \<open>js ''plain text''\<close>
  let ?f = \<open>js ''```json\<newline>[1,2]\<newline>``` ''\<close>
  let ?fc = \<open>js ''[1,2]''\<close>
  let ?J = \<open>js ''```json''\<close> and ?F = \<open>js ''```''\<close>
  have ne: "?a \<noteq> []" "?o \<noteq> []" "?p \<noteq> []" "?f \<noteq> []"
    by (simp_all add: js_def)
  have tick: "0x60 \<in> set ?J" "0x60 \<in> set ?F" and jay: "0x6A \<in> set ?J"
    by (simp_all add: js_def)
  have ca: "cleanFences ?a = ?a"
  proof -
    have n: "0x60 \<notin> set ?a" by (simp add: js_def)
    have "withoutFences ?J ?a ?a" "withoutFences ?F ?a ?a"
      by (rule withoutFences.no_fence[OF absent_char_no_sublist[OF tick(1) n]],
          rule withoutFences.no_fence[OF absent_char_no_sublist[OF tick(2) n]])
    moreover have "trimmedTo ?a ?a"
      unfolding trimmedTo_def
      by (intro conjI exI[of _ "[]"]) (simp_all add: js_def is_space_def)
    ultimately show ?thesis
      using cleanJSON_extracts[of ?a] by metis
  qed
  have cp: "cleanFences ?p = ?p"
  proof -
    have n: "0x60 \<notin> set ?p" by (simp add: js_def)
    have "withoutFences ?J ?p ?p" "withoutFences ?F ?p ?p"
      by (rule withoutFences.no_fence[OF absent_char_no_sublist[OF tick(1) n]],
          rule withoutFences.no_fence[OF absent_char_no_sublist[OF tick(2) n]])
    moreover have "trimmedTo ?p ?p"
      unfolding trimmedTo_def
      by (intro conjI exI[of _ "[]"]) (simp_all add: js_def is_space_def)
    ultimately show ?thesis
      using cleanJSON_extracts[of ?p] by metis
  qed
  have co: "cleanFences ?o = ?oc"
  proof -
    have n: "0x6A \<notin> set ?o" by (simp add: js_def)
    have 1: "withoutFences ?J ?o ?o"
      by (rule withoutFences.no_fence[OF absent_char_no_sublist[OF jay n]])
    have 2: \<open>withoutFences ?F ?o (js ''[ {"a":1} '' @ [])\<close>
      by (rule withoutFences_once[where w = "[]"])
        (simp_all add: js_def sublist_code prefix_code)
    have 3: \<open>trimmedTo (js ''[ {"a":1} '' @ []) ?oc\<close>
      unfolding trimmedTo_def
      by (intro conjI exI[of _ "[]"] exI[of _ "[0x20]"]) (simp_all add: js_def is_space_def)
    from 1 2 3 show ?thesis
      using cleanJSON_extracts[of ?o] by metis
  qed
  have cf: "cleanFences ?f = ?fc"
  proof -
    have 1: \<open>withoutFences ?J ?f ([] @ js ''[1,2]\<newline>``` '')\<close>
      by (rule withoutFences_once[where w = "[0x0A]"])
        (simp_all add: js_def sublist_code prefix_code is_space_def)
    have 2: \<open>withoutFences ?F ([] @ js ''[1,2]\<newline>``` '') (js ''[1,2]\<newline>'' @ [])\<close>
      by (rule withoutFences_once[where w = "[0x20]"])
        (simp_all add: js_def sublist_code prefix_code is_space_def)
    have 3: \<open>trimmedTo (js ''[1,2]\<newline>'' @ []) ?fc\<close>
      unfolding trimmedTo_def
      by (intro conjI exI[of _ "[]"] exI[of _ "[0x0A]"]) (simp_all add: js_def is_space_def)
    from 1 2 3 show ?thesis
      using cleanJSON_extracts[of ?f] by metis
  qed
  have a1: "opensWithArray ?a 6"
    by (simp add: opensWithArray_iff js_def Let_def)
  have a2: "returnsToZeroAt LBRACKET RBRACKET (drop 6 ?a) 7"
    using scanDepth_Some_iff[of LBRACKET RBRACKET 0 "drop 6 ?a" 7]
    by (simp add: returnsToZeroAt_def js_def Let_def)
  have f1: "opensWithArray ?fc 0"
    by (simp add: opensWithArray_iff js_def Let_def)
  have f2: "returnsToZeroAt LBRACKET RBRACKET (drop 0 ?fc) 5"
    using scanDepth_Some_iff[of LBRACKET RBRACKET 0 "drop 0 ?fc" 5]
    by (simp add: returnsToZeroAt_def js_def Let_def)
  have o1: "\<forall>b. opensWithArray ?oc b \<longrightarrow> neverReturnsToZero LBRACKET RBRACKET (drop b ?oc)"
  proof (intro allI impI)
    fix b assume "opensWithArray ?oc b"
    then have "b = 0"
      by (simp add: opensWithArray_iff js_def Let_def)
    then show "neverReturnsToZero LBRACKET RBRACKET (drop b ?oc)"
      using scanDepth_None_iff[of LBRACKET RBRACKET 0 ?oc]
      by (simp add: neverReturnsToZero_def js_def Let_def)
  qed
  have o2: "firstAt ?oc LBRACE 2"
    using indexOf_first[of ?oc LBRACE 2] by (simp add: js_def Let_def)
  have o3: "returnsToZeroAt LBRACE RBRACE (drop 2 ?oc) 7"
    using scanDepth_Some_iff[of LBRACE RBRACE 0 "drop 2 ?oc" 7]
    by (simp add: returnsToZeroAt_def js_def Let_def)
  have p1: "\<forall>b. opensWithArray ?p b \<longrightarrow> neverReturnsToZero LBRACKET RBRACKET (drop b ?p)"
    by (simp add: opensWithArray_iff js_def Let_def)
  have p2: "\<forall>e. firstAt ?p LBRACE e \<longrightarrow> neverReturnsToZero LBRACE RBRACE (drop e ?p)"
    using indexOf_first[of ?p LBRACE] by (simp add: js_def Let_def)
  have "cleanJSON [] = js ''{}''"
    using cleanJSON_extracts[of "[]"] by simp
  moreover have "cleanJSON ?a = take 7 (drop 6 ?a)"
    using cleanJSON_extracts[of ?a] ne a1 a2 unfolding ca by blast
  moreover have "cleanJSON ?o = take 7 (drop 2 ?oc)"
    using cleanJSON_extracts[of ?o] ne o1 o2 o3 unfolding co by blast
  moreover have "cleanJSON ?p = ?p"
    using cleanJSON_extracts[of ?p] ne p1 p2 unfolding cp by blast
  moreover have "cleanJSON ?f = take 5 (drop 0 ?fc)"
    using cleanJSON_extracts[of ?f] ne f1 f2 unfolding cf by blast
  ultimately show ?thesis
    using cf by (simp add: js_def)
qed

text \<open>
  Claim C3 as stated fails: a non-empty input without any bracket or brace is not turned
  into \<open>{}\<close>.
\<close>

theorem cleanJSON_default_counterexample:
  \<open>LBRACKET \<notin> set (js ''I cannot answer that.'')
   \<and> LBRACE \<notin> set (js ''I cannot answer that.'')
   \<and> cleanJSON (js ''I cannot answer that.'') \<noteq> js ''{}''\<close>
  by (simp add: cleanJSON_def cleanFences_def js_def trim_def is_space_def balancedFrom_def Let_def)

text \<open>
  Claim C4. The fenced example yields the object inside the fence, and a text without
  bracket or brace comes back unchanged.
\<close>

theorem cleanJSON_examples:
  \<open>cleanJSON (js ''Sure! ```json\<newline>{"a":1}\<newline>```'') = js ''{"a":1}''
   \<and> cleanJSON (js ''no json here'') = js ''no json here''\<close>
  by (simp add: cleanJSON_def cleanFences_def js_def trim_def is_space_def balancedFrom_def Let_def)

text \<open>
  Claim C10. When the cleaned text has an opening brace with no opening bracket before
  it, and the brace depth counted from the first opening brace never returns to zero
  before the end of the text, \<open>cleanJSON\<close> returns the whole cleaned text, which is
  neither a proper prefix of it nor the default \<open>{}\<close>.
\<close>

theorem cleanJSON_unclosed_object:
  assumes "firstAt (cleanFences input) LBRACE e"
    and "\<forall>j\<in>{..<e}. cleanFences input ! j \<noteq> LBRACKET"
    and "neverReturnsToZero LBRACE RBRACE (drop e (cleanFences input))"
  shows "cleanJSON input = cleanFences input \<and> cleanJSON input \<noteq> js ''{}''"
proof -
  let ?c = "cleanFences input"
  have "?c \<noteq> []"
    using assms(1) by (auto simp: firstAt_def)
  then have ne: "input \<noteq> []"
    using cleanFences_Nil by auto
  have a: "arrayBranch ?c = None"
    using not_opensWithArray[OF assms(1,2)] by (intro arrayBranch_None) simp
  have "neverReturnsToZero LBRACE RBRACE (drop e' ?c)" if "firstAt ?c LBRACE e'" for e'
    using firstAt_unique[OF that assms(1)] assms(3) by simp
  then have o: "objectBranch ?c = None"
    by (intro objectBranch_None) simp
  have eq: "cleanJSON input = ?c"
    using a o by (simp add: cleanJSON_branches[OF ne])
  have "?c \<noteq> js ''{}''"
  proof
    assume c: "?c = js ''{}''"
    then have "firstAt ?c LBRACE 0"
      by (simp add: firstAt_def js_def)
    with assms(1) have "e = 0" by (rule firstAt_unique)
    with assms(3) c braces_return show False by simp
  qed
  with eq show ?thesis by simp
qed

theorem cleanJSON_unclosed_object_witness:
  \<open>cleanJSON (js ''Result: ```json\<newline>{"a": {"b": 1} ```'') = js ''Result: {"a": {"b": 1}''\<close>
proof -
  let ?input = \<open>js ''Result: ```json\<newline>{"a": {"b": 1} ```''\<close>
  let ?c = \<open>js ''Result: {"a": {"b": 1}''\<close>
  have c: "cleanFences ?input = ?c"
    by (simp add: cleanFences_def js_def trim_def is_space_def)
  have h1: "firstAt (cleanFences ?input) LBRACE 8"
    unfolding c using indexOf_first[of ?c LBRACE 8] by (simp add: js_def Let_def)
  have h2: "\<forall>j\<in>{..<8}. cleanFences ?input ! j \<noteq> LBRACKET"
  proof -
    have "LBRACKET \<notin> set ?c" by (simp add: js_def)
    then have "?c ! j \<noteq> LBRACKET" if "j < length ?c" for j
      using that nth_mem by metis
    then show ?thesis unfolding c by (simp add: js_def)
  qed
  have h3: "neverReturnsToZero LBRACE RBRACE (drop 8 (cleanFences ?input))"
    unfolding c using scanDepth_None_iff[of LBRACE RBRACE 0 "drop 8 ?c"]
    by (simp add: neverReturnsToZero_def js_def Let_def)
  from cleanJSON_unclosed_object[OF h1 h2 h3] c show ?thesis by simp
qed

section \<open>Properties of the interview system prompt\<close>

lemma sublist_skip: "sublist xs ys \<Longrightarrow> sublist xs (a @ ys)"
  by (auto simp: sublist_def) (metis append_assoc)

lemma sublist_here: "prefix xs ys \<Longrightarrow> sublist xs ys"
  by (rule prefix_imp_sublist)

lemma profile_section_in_prompt:
  \<open>sublist
     (js ''PROFILE FIELDS TO COLLECT:\<newline>'' @
      formatProfileFields (profileSchema cfg) profile @ js ''\<newline>'' @
      pendingWarning cfg profile @ js ''\<newline>'' @ js ''\<newline>'' @
      js ''PARTICIPANT CONTEXT:\<newline>'')
     (buildInterviewSystemPrompt cfg profile progress ctx)\<close>
  unfolding buildInterviewSystemPrompt_def Let_def
    apply (rule sublist_skip)
    apply (rule sublist_skip)
    apply (rule sublist_skip)
    apply (rule sublist_skip)
    apply (rule sublist_skip)
    apply (rule sublist_skip)
    apply (rule sublist_skip)
    apply (rule sublist_skip)
    apply (rule sublist_skip)
    apply (rule sublist_skip)
    apply (rule sublist_skip)
    apply (rule sublist_skip)
    apply (rule sublist_skip)
    apply (rule sublist_skip)
    apply (rule sublist_skip)
    apply (rule sublist_skip)
    apply (rule sublist_skip)
    apply (rule sublist_skip)
    apply (rule sublist_skip)
    apply (rule sublist_skip)
    apply (rule sublist_skip)
    apply (rule sublist_skip)
    apply (rule sublist_skip)
    apply (rule sublist_skip)
    apply (rule sublist_skip)
    apply (rule sublist_skip)
    apply (rule sublist_skip)
    apply (rule sublist_skip)
    apply (rule sublist_skip)
    apply (rule sublist_skip)
    apply (rule sublist_skip)
    apply (rule sublist_skip)
    apply (rule sublist_skip)
    apply (rule sublist_skip)
    apply (rule sublist_skip)
  apply (rule sublist_here)
  apply simp
  done

lemma noRecordedValue_iff:
  "noRecordedValue profile f \<longleftrightarrow> findFieldValue profile (id_PF f) = None"
  by (cases profile) (auto simp: noRecordedValue_def findFieldValue_def find_None_iff in_set_conv_nth)

lemma recordedStatus_iff:
  "recordedStatus profile f st \<longleftrightarrow>
     (\<exists>v. findFieldValue profile (id_PF f) = Some v \<and> ProfileFieldValue.status v = st)"
proof (cases profile)
  case None
  then show ?thesis by (simp add: recordedStatus_def findFieldValue_def)
next
  case (Some p)
  have "(\<exists>v. find (\<lambda>e. fieldId e = id_PF f) (fields_PP p) = Some v
            \<and> ProfileFieldValue.status v = st)
      \<longleftrightarrow> (\<exists>i<length (fields_PP p).
              fieldId (fields_PP p ! i) = id_PF f
            \<and> \<not> (\<exists>j<i. fieldId (fields_PP p ! j) = id_PF f)
            \<and> ProfileFieldValue.status (fields_PP p ! i) = st)"
    by (auto simp: find_Some_iff)
  with Some show ?thesis
    by (simp add: recordedStatus_def findFieldValue_def)
qed

lemma unresolved_iff:
  "unresolved profile f \<longleftrightarrow>
     (case findFieldValue profile (id_PF f) of
        None \<Rightarrow> True
      | Some value \<Rightarrow> ProfileFieldValue.status value = Pending
                     \<or> ProfileFieldValue.status value = Vague)"
  by (simp add: unresolved_def noRecordedValue_iff recordedStatus_iff split: option.split)

lemma unresolved_not_settled:
  "unresolved profile f \<longleftrightarrow>
     \<not> (recordedStatus profile f Extracted \<or> recordedStatus profile f Refused)"
proof (cases "findFieldValue profile (id_PF f)")
  case None
  then show ?thesis by (simp add: unresolved_iff recordedStatus_iff)
next
  case (Some v)
  then show ?thesis
    by (cases "ProfileFieldValue.status v") (simp_all add: unresolved_iff recordedStatus_iff)
qed

lemma pendingRequired_eq:
  "pendingRequired cfg profile = filter (\<lambda>f. required f \<and> unresolved profile f) (profileSchema cfg)"
proof -
  have "pendingRequired cfg profile =
      filter (\<lambda>f. required f \<and>
          (case findFieldValue profile (id_PF f) of
             None \<Rightarrow> True
           | Some value \<Rightarrow> ProfileFieldValue.status value = Pending
                          \<or> ProfileFieldValue.status value = Vague))
        (profileSchema cfg)"
    by (simp only: pendingRequired_def requiredFields_def filter_filter)
  then show ?thesis
    by (simp only: unresolved_iff)
qed

lemma showNat_not_Nil: "showNat n \<noteq> []"
  by (subst showNat.simps) simp

lemma js_below_256: "x \<in> set (js s) \<Longrightarrow> unat x < 256"
proof -
  assume "x \<in> set (js s)"
  then obtain c where x: "x = of_nat (of_char c)"
    by (auto simp: js_def)
  have lt: "(of_char c :: nat) < 256"
    by (rule nat_of_char_less_256)
  then have "(of_char c :: nat) < 65536"
    by linarith
  then have "unat (of_nat (of_char c) :: 16 word) = of_char c"
    by (simp add: unat_of_nat)
  with x lt show ?thesis by simp
qed

lemma js_no_sign: "WARNING_SIGN \<notin> set (js s)"
proof
  assume "WARNING_SIGN \<in> set (js s)"
  then have "unat WARNING_SIGN < 256"
    by (rule js_below_256)
  then show False by simp
qed

lemma digit_no_sign:
  assumes "k < 10"
  shows "(of_nat (48 + k) :: 16 word) \<noteq> WARNING_SIGN"
proof
  assume e: "(of_nat (48 + k) :: 16 word) = WARNING_SIGN"
  from assms have "48 + k < (65536 :: nat)"
    by linarith
  then have "unat (of_nat (48 + k) :: 16 word) = 48 + k"
    by (simp only: unat_of_nat) simp
  moreover have "unat WARNING_SIGN = 9888"
    by simp
  ultimately have "48 + k = 9888"
    using e by simp
  with assms show False by linarith
qed

lemma showNat_no_sign: "WARNING_SIGN \<notin> set (showNat n)"
proof (induction n rule: showNat.induct)
  case (1 n)
  show ?case
  proof (cases "n < 10")
    case True
    then have "showNat n = [of_nat (48 + n)]"
      by (subst showNat.simps) simp
    with digit_no_sign[OF True] show ?thesis by simp
  next
    case False
    then have "showNat n = showNat (n div 10) @ [of_nat (48 + n mod 10)]"
      by (subst showNat.simps) simp
    moreover have "(of_nat (48 + n mod 10) :: 16 word) \<noteq> WARNING_SIGN"
      by (rule digit_no_sign) simp
    ultimately show ?thesis
      using 1[OF False] by simp
  qed
qed

lemma join_set: "x \<in> set (join sep xs) \<Longrightarrow> x \<in> set sep \<or> (\<exists>s\<in>set xs. x \<in> set s)"
  by (induction sep xs rule: join.induct) auto


lemma phaseName_no_sign: "WARNING_SIGN \<notin> set (phaseName p)"
  by (cases p) (simp_all add: js_no_sign)

lemma statusName_no_sign: "WARNING_SIGN \<notin> set (statusName st)"
  by (cases st) (simp_all add: js_no_sign)

lemma behavior_no_sign: "WARNING_SIGN \<notin> set (getAIBehaviorInstruction b)"
  by (cases b) (simp_all add: js_no_sign)

lemma tone_no_sign: "WARNING_SIGN \<notin> set (getToneInstruction tn)"
proof -
  have "WARNING_SIGN \<notin> set (toneInstruction x)" for x
    by (cases x) (simp_all add: js_no_sign)
  then show ?thesis by (simp add: getToneInstruction_def)
qed

lemma language_no_sign: "WARNING_SIGN \<notin> set (languageInstruction cfg)"
  by (simp add: languageInstruction_def js_no_sign)

lemma findFieldValue_mem:
  "findFieldValue profile k = Some v \<Longrightarrow> \<exists>p. profile = Some p \<and> v \<in> set (fields_PP p)"
  by (cases profile) (auto simp: findFieldValue_def find_Some_iff)

lemma texts_clean:
  assumes "\<forall>s\<in>set (interpolatedTexts cfg profile ctx). WARNING_SIGN \<notin> set s"
  shows "WARNING_SIGN \<notin> set (researchQuestion cfg)"
    and "WARNING_SIGN \<notin> set (description cfg)"
    and "WARNING_SIGN \<notin> set ctx"
    and "\<And>s. s \<in> set (topicAreas cfg) \<Longrightarrow> WARNING_SIGN \<notin> set s"
    and "\<And>s. s \<in> set (coreQuestions cfg) \<Longrightarrow> WARNING_SIGN \<notin> set s"
    and "\<And>f. f \<in> set (profileSchema cfg) \<Longrightarrow> WARNING_SIGN \<notin> set (id_PF f)"
    and "\<And>f. f \<in> set (profileSchema cfg) \<Longrightarrow> WARNING_SIGN \<notin> set (extractionHint f)"
    and "\<And>p. profile = Some p \<Longrightarrow> WARNING_SIGN \<notin> set (rawContext p)"
    and "\<And>p n. profile = Some p \<Longrightarrow> nickname p = Some n \<Longrightarrow> WARNING_SIGN \<notin> set n"
    and "\<And>p fv. profile = Some p \<Longrightarrow> fv \<in> set (fields_PP p)
           \<Longrightarrow> WARNING_SIGN \<notin> set (showNullable (value_PFV fv))"
  using assms by (auto simp: interpolatedTexts_def split: option.splits)

lemma formatProfileField_no_sign:
  assumes "\<forall>s\<in>set (interpolatedTexts cfg profile ctx). WARNING_SIGN \<notin> set s"
    and "f \<in> set (profileSchema cfg)"
  shows "WARNING_SIGN \<notin> set (formatProfileField profile f)"
proof -
  note c = texts_clean[OF assms(1)]
  have v: "WARNING_SIGN \<notin> set (showNullable (value_PFV fv))"
    if "findFieldValue profile (id_PF f) = Some fv" for fv
  proof -
    from findFieldValue_mem[OF that] obtain p where "profile = Some p" "fv \<in> set (fields_PP p)"
      by blast
    with c(10) show ?thesis
      by blast
  qed
  show ?thesis
    using c(6)[OF assms(2)] c(7)[OF assms(2)] v
    by (auto simp: formatProfileField_def Let_def js_no_sign statusName_no_sign
        split: option.splits)
qed

lemma formatProfileFields_no_sign:
  assumes "\<forall>s\<in>set (interpolatedTexts cfg profile ctx). WARNING_SIGN \<notin> set s"
  shows "WARNING_SIGN \<notin> set (formatProfileFields (profileSchema cfg) profile)"
proof
  assume "WARNING_SIGN \<in> set (formatProfileFields (profileSchema cfg) profile)"
  then have "WARNING_SIGN \<in> set (js ''\<newline>'')
      \<or> (\<exists>s\<in>set (map (formatProfileField profile) (profileSchema cfg)). WARNING_SIGN \<in> set s)"
    unfolding formatProfileFields_def by (rule join_set)
  with formatProfileField_no_sign[OF assms] show False
    by (auto simp: js_no_sign)
qed

lemma remainingBlock_no_sign:
  assumes "\<forall>s\<in>set (interpolatedTexts cfg profile ctx). WARNING_SIGN \<notin> set s"
  shows "WARNING_SIGN \<notin> set (remainingBlock cfg progress)"
proof -
  note c = texts_clean[OF assms(1)]
  have q: "snd q \<in> set (coreQuestions cfg)" if "q \<in> set (take 3 (remainingQuestions cfg progress))" for q
  proof -
    from that have "q \<in> set (remainingQuestions cfg progress)"
      by (rule in_set_takeD)
    then have "q \<in> set (zip [0..<length (coreQuestions cfg)] (coreQuestions cfg))"
      by (simp add: remainingQuestions_def withIndex_def)
    then show ?thesis
      by (metis set_zip_rightD prod.collapse)
  qed
  have line: "WARNING_SIGN \<notin> set (js ''  '' @ showNat (fst q + 1) @ js ''. '' @ snd q)"
    if "q \<in> set (take 3 (remainingQuestions cfg progress))" for q
    using c(5)[OF q[OF that]] by (simp add: js_no_sign showNat_no_sign)
  have "WARNING_SIGN \<notin> set (join (js ''\<newline>'')
      (map (\<lambda>q. js ''  '' @ showNat (fst q + 1) @ js ''. '' @ snd q)
         (take 3 (remainingQuestions cfg progress))))"
  proof
    assume "WARNING_SIGN \<in> set (join (js ''\<newline>'')
      (map (\<lambda>q. js ''  '' @ showNat (fst q + 1) @ js ''. '' @ snd q)
         (take 3 (remainingQuestions cfg progress))))"
    from join_set[OF this] line show False
      by (auto simp: js_no_sign)
  qed
  then show ?thesis
    by (simp add: remainingBlock_def Let_def js_no_sign)
qed

lemma pendingWarning_sign:
  "WARNING_SIGN \<in> set (pendingWarning cfg profile) \<longleftrightarrow> pendingWarning cfg profile \<noteq> []"
  by (simp add: pendingWarning_def Let_def)

lemma sign_in_prompt_iff:
  assumes "\<forall>s\<in>set (interpolatedTexts cfg profile ctx). WARNING_SIGN \<notin> set s"
  shows "WARNING_SIGN \<in> set (buildInterviewSystemPrompt cfg profile progress ctx)
           \<longleftrightarrow> pendingWarning cfg profile \<noteq> []"
proof -
  note c = texts_clean[OF assms]
  have topics: "WARNING_SIGN \<notin> set (join (js '', '') (topicAreas cfg))"
  proof
    assume "WARNING_SIGN \<in> set (join (js '', '') (topicAreas cfg))"
    from join_set[OF this] c(4) show False
      by (auto simp: js_no_sign)
  qed
  have nick: "WARNING_SIGN \<notin> set (case (case profile of None \<Rightarrow> None | Some p \<Rightarrow> nickname p) of
        None \<Rightarrow> []
      | Some n \<Rightarrow> if n \<noteq> [] then js ''PARTICIPANT IDENTIFIER: '' @ n else [])"
    using c(9) by (auto simp: js_no_sign split: option.splits)
  have raw: "WARNING_SIGN \<notin> set (case profile of
        None \<Rightarrow> js ''No background gathered yet.''
      | Some p \<Rightarrow> if rawContext p \<noteq> [] then rawContext p else js ''No background gathered yet.'')"
    using c(8) by (auto simp: js_no_sign split: option.splits)
  have tail: "WARNING_SIGN \<notin> set (if ctx \<noteq> [] then js ''ADDITIONAL CONTEXT:\<newline>'' @ ctx else [])"
    using c(3) by (simp add: js_no_sign)
  show ?thesis
    unfolding buildInterviewSystemPrompt_def Let_def set_append Un_iff pendingWarning_sign
    using nick raw tail topics c(1) c(2) remainingBlock_no_sign[OF assms]
      formatProfileFields_no_sign[OF assms]
    by (simp only: js_no_sign showNat_no_sign phaseName_no_sign behavior_no_sign tone_no_sign
        language_no_sign simp_thms)
qed

lemma pendingWarning_in_prompt:
  "sublist (pendingWarning cfg profile) (buildInterviewSystemPrompt cfg profile progress ctx)"
proof -
  have "sublist (pendingWarning cfg profile)
     (js ''PROFILE FIELDS TO COLLECT:\<newline>'' @
      formatProfileFields (profileSchema cfg) profile @ js ''\<newline>'' @
      pendingWarning cfg profile @ js ''\<newline>'' @ js ''\<newline>'' @
      js ''PARTICIPANT CONTEXT:\<newline>'')"
    by (intro sublist_skip sublist_here) simp
  then show ?thesis
    using profile_section_in_prompt by (rule sublist_order.order.trans)
qed

lemma description_in_prompt:
  "sublist (description cfg) (buildInterviewSystemPrompt cfg profile progress ctx)"
  unfolding buildInterviewSystemPrompt_def Let_def
    apply (rule sublist_skip)
    apply (rule sublist_skip)
    apply (rule sublist_skip)
    apply (rule sublist_skip)
    apply (rule sublist_skip)
    apply (rule sublist_skip)
    apply (rule sublist_skip)
    apply (rule sublist_skip)
    apply (rule sublist_skip)
    apply (rule sublist_skip)
    apply (rule sublist_skip)
  apply (rule sublist_here)
  apply simp
  done

lemma warningBlock_sign: "WARNING_SIGN \<in> set (warningBlock k)"
  by (simp add: warningBlock_def)

lemma warningBlock_1:
  \<open>warningBlock 1 =
     js ''\<newline>'' @ [0x26A0, 0xFE0F] @
     js '' 1 required fields still pending. Stay in background phase until collected or explicitly refused.''\<close>
proof -
  have "showNat 1 = js ''1''"
    by (subst showNat.simps) (simp add: js_def)
  then show ?thesis
    by (simp add: warningBlock_def js_def)
qed

text \<open>
  Claim C6 as stated fails. The prompt copies the study description as it is; when the
  description quotes the warning block, the prompt contains the block although the study
  has no profile field at all, so none that is required and unresolved.
\<close>

theorem quoted_warning_counterexample:
  \<open>profileSchema quotingConfig = []
   \<and> pendingWarning quotingConfig None = []
   \<and> sublist (warningBlock 1) (buildInterviewSystemPrompt quotingConfig None exampleProgress [])\<close>
proof -
  have s: "profileSchema quotingConfig = []"
    by (simp add: quotingConfig_def)
  have p: "pendingWarning quotingConfig None = []"
    by (simp add: pendingWarning_def pendingRequired_def requiredFields_def s)
  have "description quotingConfig = warningBlock 1"
    unfolding warningBlock_1 by (simp add: quotingConfig_def)
  then have "sublist (warningBlock 1) (buildInterviewSystemPrompt quotingConfig None exampleProgress [])"
    using description_in_prompt[of quotingConfig None exampleProgress "[]"] by simp
  with s p show ?thesis by simp
qed

text \<open>
  Claim C6, as amended. The assembled prompt holds, between the formatted profile fields
  and the participant context, the warning block with the number of fields concerned if
  at least one required profile field is unresolved, and nothing otherwise; a field is
  unresolved when the profile has no entry for it or its first entry has status pending or
  vague, which is to say that it is not recorded as extracted or refused. So whenever a
  required field is unresolved the prompt contains the block. Conversely, where none of
  the texts taken over from the configuration, the profile and the context holds the
  warning sign, the prompt contains a warning block, or the sign at all, only if a
  required field is unresolved.
\<close>

theorem pendingWarning_iff:
  \<open>sublist
     (js ''PROFILE FIELDS TO COLLECT:\<newline>'' @
      formatProfileFields (profileSchema cfg) profile @ js ''\<newline>'' @
      pendingWarning cfg profile @ js ''\<newline>'' @ js ''\<newline>'' @
      js ''PARTICIPANT CONTEXT:\<newline>'')
     (buildInterviewSystemPrompt cfg profile progress ctx)
   \<and> pendingWarning cfg profile =
       (if \<exists>f\<in>set (profileSchema cfg). required f \<and> unresolved profile f
        then warningBlock (length (filter (\<lambda>f. required f \<and> unresolved profile f) (profileSchema cfg)))
        else [])
   \<and> ((\<exists>f\<in>set (profileSchema cfg). required f \<and> unresolved profile f)
        \<longleftrightarrow> pendingWarning cfg profile \<noteq> [])
   \<and> ((\<exists>f\<in>set (profileSchema cfg). required f \<and> unresolved profile f) \<longrightarrow>
        sublist
          (warningBlock (length (filter (\<lambda>f. required f \<and> unresolved profile f) (profileSchema cfg))))
          (buildInterviewSystemPrompt cfg profile progress ctx))
   \<and> (unresolved profile f \<longleftrightarrow>
        \<not> (recordedStatus profile f Extracted \<or> recordedStatus profile f Refused))
   \<and> ((\<forall>s\<in>set (interpolatedTexts cfg profile ctx). WARNING_SIGN \<notin> set s) \<longrightarrow>
        ((\<exists>k. sublist (warningBlock k) (buildInterviewSystemPrompt cfg profile progress ctx))
           \<longleftrightarrow> (\<exists>f\<in>set (profileSchema cfg). required f \<and> unresolved profile f)))
   \<and> ((\<forall>s\<in>set (interpolatedTexts cfg profile ctx). WARNING_SIGN \<notin> set s) \<longrightarrow>
        (WARNING_SIGN \<in> set (buildInterviewSystemPrompt cfg profile progress ctx)
           \<longleftrightarrow> (\<exists>f\<in>set (profileSchema cfg). required f \<and> unresolved profile f)))\<close>
proof -
  let ?P = "\<lambda>f. required f \<and> unresolved profile f"
  let ?n = "length (filter ?P (profileSchema cfg))"
  let ?prompt = "buildInterviewSystemPrompt cfg profile progress ctx"
  have ex: "(\<exists>f\<in>set (profileSchema cfg). ?P f) \<longleftrightarrow> 0 < ?n"
    by (simp only: length_greater_0_conv filter_empty_conv) blast
  have "pendingWarning cfg profile = (if 0 < ?n then warningBlock ?n else [])"
    by (simp only: pendingWarning_def pendingRequired_eq warningBlock_def Let_def gt_ex)
  then have w: "pendingWarning cfg profile =
       (if \<exists>f\<in>set (profileSchema cfg). ?P f then warningBlock ?n else [])"
    by (simp only: ex)
  have ne: "warningBlock n \<noteq> []" for n
    by (simp add: warningBlock_def)
  have iff: "(\<exists>f\<in>set (profileSchema cfg). ?P f) \<longleftrightarrow> pendingWarning cfg profile \<noteq> []"
    by (simp only: w ne if_True if_False split: if_split) simp
  have inside: "(\<exists>f\<in>set (profileSchema cfg). ?P f) \<longrightarrow> sublist (warningBlock ?n) ?prompt"
  proof
    assume "\<exists>f\<in>set (profileSchema cfg). ?P f"
    with w have "pendingWarning cfg profile = warningBlock ?n"
      by simp
    with pendingWarning_in_prompt[of cfg profile progress ctx]
    show "sublist (warningBlock ?n) ?prompt"
      by simp
  qed
  have sign: "(\<forall>s\<in>set (interpolatedTexts cfg profile ctx). WARNING_SIGN \<notin> set s) \<longrightarrow>
        (WARNING_SIGN \<in> set ?prompt \<longleftrightarrow> (\<exists>f\<in>set (profileSchema cfg). ?P f))"
  proof
    assume "\<forall>s\<in>set (interpolatedTexts cfg profile ctx). WARNING_SIGN \<notin> set s"
    from sign_in_prompt_iff[OF this] iff
    show "WARNING_SIGN \<in> set ?prompt \<longleftrightarrow> (\<exists>f\<in>set (profileSchema cfg). ?P f)"
      by simp
  qed
  have block: "(\<forall>s\<in>set (interpolatedTexts cfg profile ctx). WARNING_SIGN \<notin> set s) \<longrightarrow>
        ((\<exists>k. sublist (warningBlock k) ?prompt) \<longleftrightarrow> (\<exists>f\<in>set (profileSchema cfg). ?P f))"
  proof (intro impI iffI)
    assume c: "\<forall>s\<in>set (interpolatedTexts cfg profile ctx). WARNING_SIGN \<notin> set s"
      and "\<exists>k. sublist (warningBlock k) ?prompt"
    then obtain k where "sublist (warningBlock k) ?prompt"
      by blast
    then have "set (warningBlock k) \<subseteq> set ?prompt"
      by (rule set_mono_sublist)
    with warningBlock_sign[of k] have "WARNING_SIGN \<in> set ?prompt"
      by blast
    with sign c show "\<exists>f\<in>set (profileSchema cfg). ?P f"
      by blast
  next
    assume "\<exists>f\<in>set (profileSchema cfg). ?P f"
    with inside show "\<exists>k. sublist (warningBlock k) ?prompt"
      by blast
  qed
  show ?thesis
    by (intro conjI)
      (rule profile_section_in_prompt, rule w, rule iff, rule inside, rule unresolved_not_settled,
       rule block, rule sign)
qed

lemma find_example_some:
  \<open>findFieldValue (Some (exampleProfile st v)) (js ''role'') =
     Some \<lparr> fieldId = js ''role'', value_PFV = v, status = st, extractedAt = None \<rparr>\<close>
  by (simp add: findFieldValue_def exampleProfile_def)

lemma twoFieldProfile_entries:
  \<open>findFieldValue (Some (twoFieldProfile a b)) (js ''role'') =
     Some \<lparr> fieldId = js ''role'', value_PFV = None, status = a, extractedAt = None \<rparr>\<close>
  \<open>findFieldValue (Some (twoFieldProfile a b)) (js ''age'') =
     Some \<lparr> fieldId = js ''age'', value_PFV = None, status = b, extractedAt = None \<rparr>\<close>
  by (simp_all add: findFieldValue_def twoFieldProfile_def js_def)

lemma twoFieldProfile_unresolved:
  "unresolved (Some (twoFieldProfile a b)) exampleField \<longleftrightarrow> a = Pending \<or> a = Vague"
  "unresolved (Some (twoFieldProfile a b)) ageField \<longleftrightarrow> b = Pending \<or> b = Vague"
  "unresolved None g"
proof -
  show "unresolved (Some (twoFieldProfile a b)) exampleField \<longleftrightarrow> a = Pending \<or> a = Vague"
    by (simp add: unresolved_iff exampleField_def twoFieldProfile_entries)
  show "unresolved (Some (twoFieldProfile a b)) ageField \<longleftrightarrow> b = Pending \<or> b = Vague"
    by (simp add: unresolved_iff ageField_def twoFieldProfile_entries)
  show "unresolved None g"
    by (simp add: unresolved_iff findFieldValue_def)
qed

theorem pendingWarning_iff_witness:
  \<open>pendingWarning twoFieldConfig None = warningBlock 2
   \<and> pendingWarning twoFieldConfig (Some (twoFieldProfile Extracted Pending)) = warningBlock 1
   \<and> pendingWarning twoFieldConfig (Some (twoFieldProfile Vague Refused)) = warningBlock 1
   \<and> pendingWarning twoFieldConfig (Some (twoFieldProfile Extracted Refused)) = []
   \<and> sublist (warningBlock 1)
       (buildInterviewSystemPrompt twoFieldConfig (Some (twoFieldProfile Extracted Pending))
          exampleProgress [])
   \<and> WARNING_SIGN \<notin> set (buildInterviewSystemPrompt twoFieldConfig
         (Some (twoFieldProfile Extracted Refused)) exampleProgress [])\<close>
proof -
  have req: "required exampleField" "required ageField"
    by (simp_all add: exampleField_def ageField_def)
  have schema: "profileSchema twoFieldConfig = [exampleField, ageField]"
    by (simp add: twoFieldConfig_def)
  note u = twoFieldProfile_unresolved
  note f = pendingWarning_iff[where cfg = twoFieldConfig and progress = exampleProgress
      and ctx = "[]" and f = exampleField]
  have t: "\<forall>s\<in>set (interpolatedTexts twoFieldConfig (Some (twoFieldProfile Extracted Refused)) []).
      WARNING_SIGN \<notin> set s"
    by (simp add: interpolatedTexts_def twoFieldConfig_def exampleConfig_def exampleField_def
        ageField_def twoFieldProfile_def showNullable_def js_no_sign)
  have 1: "pendingWarning twoFieldConfig None = warningBlock 2"
    using f[of None] by (simp add: schema req u numeral_2_eq_2)
  have 2: "pendingWarning twoFieldConfig (Some (twoFieldProfile Extracted Pending)) = warningBlock 1"
    using f[of "Some (twoFieldProfile Extracted Pending)"] by (simp add: schema req u)
  have 3: "pendingWarning twoFieldConfig (Some (twoFieldProfile Vague Refused)) = warningBlock 1"
    using f[of "Some (twoFieldProfile Vague Refused)"] by (simp add: schema req u)
  have 4: "pendingWarning twoFieldConfig (Some (twoFieldProfile Extracted Refused)) = []"
    using f[of "Some (twoFieldProfile Extracted Refused)"] by (simp add: schema req u)
  have 5: "sublist (warningBlock 1)
       (buildInterviewSystemPrompt twoFieldConfig (Some (twoFieldProfile Extracted Pending))
          exampleProgress [])"
    using f[of "Some (twoFieldProfile Extracted Pending)"] by (simp add: schema req u)
  have 6: "WARNING_SIGN \<notin> set (buildInterviewSystemPrompt twoFieldConfig
         (Some (twoFieldProfile Extracted Refused)) exampleProgress [])"
    using f[of "Some (twoFieldProfile Extracted Refused)"] t by (simp add: schema req u)
  from 1 2 3 4 5 6 show ?thesis
    by (intro conjI)
qed

section \<open>Properties of generateInterviewResponse\<close>

lemma generate_catch:
  "generateInterviewResponse backend parse model history cfg profile progress ctx =
     map_option (\<lambda>outcome. Inr (case outcome of Inl e \<Rightarrow> defaultInterviewResponse | Inr r \<Rightarrow> r))
       (tryBody backend parse model (buildInterviewSystemPrompt cfg profile progress ctx) history)"
  by (simp add: generateInterviewResponse_def Let_def split: option.split sum.split)

lemma tryBody_None_iff:
  "tryBody backend parse model sys history = None
     \<longleftrightarrow> backend (chatRequest model sys history) = NeverSettles"
  by (simp add: tryBody_def split: SdkOutcome.split option.split)

lemma responseFromParsed_null: "responseFromParsed JNull = Inl TypeError"
  by (simp add: responseFromParsed_def)

text \<open>
  Claim C5 as stated fails. The method sets no timeout: while the backend call stays
  pending the method returns nothing, the fallback neither. And an output in which
  \<open>cleanJSON\<close> finds no JSON structure is not always a failure: the text \<open>42\<close> is handed
  to \<open>JSON.parse\<close> whole, parses to the number 42, and the response is built from the
  per-field defaults, with another message than the fallback's.
\<close>

theorem no_fallback_counterexample:
  \<open>generateInterviewResponse stalled (parsingTo None) (js ''gemini-2.5-flash'')
       [exampleMessage RoleUser (js ''hello'')] exampleConfig None exampleProgress []
     = None
   \<and> generateInterviewResponse stalled (parsingTo None) (js ''gemini-2.5-flash'')
       [exampleMessage RoleUser (js ''hello'')] exampleConfig None exampleProgress []
     \<noteq> Some (Inr defaultInterviewResponse)
   \<and> cleanJSON (textOrEmptyObject (Some (js ''42''))) = js ''42''
   \<and> generateInterviewResponse (answering (js ''42'')) (parsingTo (Some (JNum 42)))
       (js ''gemini-2.5-flash'') [exampleMessage RoleUser (js ''hello'')] exampleConfig None
       exampleProgress []
     = Some (Inr \<lparr> message_RO = JStr (js ''That's interesting. Could you tell me more?''),
                   questionAddressed_RO = JNull, phaseTransition_RO = JNull,
                   profileUpdates_RO = JArr [], shouldConclude_RO = JBool False \<rparr>)
   \<and> generateInterviewResponse (answering (js ''42'')) (parsingTo (Some (JNum 42)))
       (js ''gemini-2.5-flash'') [exampleMessage RoleUser (js ''hello'')] exampleConfig None
       exampleProgress []
     \<noteq> Some (Inr defaultInterviewResponse)\<close>
proof -
  have s: \<open>generateInterviewResponse stalled (parsingTo None) (js ''gemini-2.5-flash'')
       [exampleMessage RoleUser (js ''hello'')] exampleConfig None exampleProgress [] = None\<close>
    by (simp add: generate_catch tryBody_def stalled_def)
  have c: \<open>cleanJSON (textOrEmptyObject (Some (js ''42''))) = js ''42''\<close>
    by (simp add: textOrEmptyObject_def cleanJSON_def cleanFences_def js_def trim_def is_space_def
        balancedFrom_def Let_def)
  have g: \<open>generateInterviewResponse (answering (js ''42'')) (parsingTo (Some (JNum 42)))
       (js ''gemini-2.5-flash'') [exampleMessage RoleUser (js ''hello'')] exampleConfig None
       exampleProgress []
     = Some (Inr \<lparr> message_RO = JStr (js ''That's interesting. Could you tell me more?''),
                   questionAddressed_RO = JNull, phaseTransition_RO = JNull,
                   profileUpdates_RO = JArr [], shouldConclude_RO = JBool False \<rparr>)\<close>
    by (simp add: generate_catch tryBody_def answering_def parsingTo_def responseFromParsed_def
        orElse_def nullish_def)
  have d: \<open>JStr (js ''That's interesting. Could you tell me more?'')
      \<noteq> message_RO defaultInterviewResponse\<close>
    by (simp add: defaultInterviewResponse_def js_def)
  have n: \<open>\<lparr> message_RO = JStr (js ''That's interesting. Could you tell me more?''),
                   questionAddressed_RO = JNull, phaseTransition_RO = JNull,
                   profileUpdates_RO = JArr [], shouldConclude_RO = JBool False \<rparr>
      \<noteq> defaultInterviewResponse\<close>
    using d by (metis ResponseObject.select_convs(1))
  from s c g n show ?thesis
    by simp
qed

text \<open>
  Claim C5, as amended. The fallback covers the failures raised inside the \<open>try\<close>: when
  the backend call throws (this is how a network error, a quota error, or a timeout that
  the SDK itself signals arrives), or the backend answers with a text that, once cleaned,
  \<open>JSON.parse\<close> rejects or parses to \<open>null\<close>, the method returns the fixed default
  response, whose message is not empty. No exception ever leaves the method. The method
  returns nothing exactly when the backend call never settles.
\<close>

theorem generateInterviewResponse_fallback:
  \<open>(((\<exists>failure. backend (chatRequest model (buildInterviewSystemPrompt cfg profile progress ctx)
                      history) = Throws failure)
      \<or> (\<exists>t. backend (chatRequest model (buildInterviewSystemPrompt cfg profile progress ctx)
                      history) = Answers t
             \<and> (parse (cleanJSON (textOrEmptyObject t)) = None
                  \<or> parse (cleanJSON (textOrEmptyObject t)) = Some JNull)))
       \<longrightarrow> generateInterviewResponse backend parse model history cfg profile progress ctx
             = Some (Inr defaultInterviewResponse))
   \<and> generateInterviewResponse backend parse model history cfg profile progress ctx
       \<noteq> Some (Inl e)
   \<and> (generateInterviewResponse backend parse model history cfg profile progress ctx = None
        \<longleftrightarrow> backend (chatRequest model (buildInterviewSystemPrompt cfg profile progress ctx)
              history) = NeverSettles)
   \<and> defaultInterviewResponse =
       \<lparr> message_RO = JStr (js ''I appreciate you sharing that. What else comes to mind?''),
         questionAddressed_RO = JNull, phaseTransition_RO = JNull,
         profileUpdates_RO = JArr [], shouldConclude_RO = JBool False \<rparr>
   \<and> message_RO defaultInterviewResponse \<noteq> JStr []\<close>
proof (intro conjI impI)
  let ?sys = "buildInterviewSystemPrompt cfg profile progress ctx"
  assume "(\<exists>failure. backend (chatRequest model ?sys history) = Throws failure)
      \<or> (\<exists>t. backend (chatRequest model ?sys history) = Answers t
             \<and> (parse (cleanJSON (textOrEmptyObject t)) = None
                  \<or> parse (cleanJSON (textOrEmptyObject t)) = Some JNull))"
  then have "\<exists>e. tryBody backend parse model ?sys history = Some (Inl e)"
    by (auto simp: tryBody_def responseFromParsed_null)
  then show "generateInterviewResponse backend parse model history cfg profile progress ctx
      = Some (Inr defaultInterviewResponse)"
    by (auto simp: generate_catch)
next
  show "generateInterviewResponse backend parse model history cfg profile progress ctx
      \<noteq> Some (Inl e)"
    by (auto simp: generate_catch)
next
  show "generateInterviewResponse backend parse model history cfg profile progress ctx = None
        \<longleftrightarrow> backend (chatRequest model (buildInterviewSystemPrompt cfg profile progress ctx)
              history) = NeverSettles"
    by (simp add: generate_catch tryBody_None_iff)
next
  show \<open>defaultInterviewResponse =
       \<lparr> message_RO = JStr (js ''I appreciate you sharing that. What else comes to mind?''),
         questionAddressed_RO = JNull, phaseTransition_RO = JNull,
         profileUpdates_RO = JArr [], shouldConclude_RO = JBool False \<rparr>\<close>
    by (simp add: defaultInterviewResponse_def)
next
  show "message_RO defaultInterviewResponse \<noteq> JStr []"
    by (simp add: defaultInterviewResponse_def js_def)
qed

theorem generateInterviewResponse_fallback_witness:
  \<open>generateInterviewResponse (failing (js ''429 RESOURCE_EXHAUSTED'')) (parsingTo None)
       (js ''gemini-2.5-flash'') [exampleMessage RoleUser (js ''hello'')] exampleConfig None
       exampleProgress []
     = Some (Inr defaultInterviewResponse)
   \<and> generateInterviewResponse (failing (js ''fetch failed'')) (parsingTo None)
       (js ''gemini-2.5-flash'') [exampleMessage RoleUser (js ''hello'')] exampleConfig None
       exampleProgress []
     = Some (Inr defaultInterviewResponse)
   \<and> generateInterviewResponse (answering (js ''{"message": "Hi'')) (parsingTo None)
       (js ''gemini-2.5-flash'') [exampleMessage RoleUser (js ''hello'')] exampleConfig None
       exampleProgress []
     = Some (Inr defaultInterviewResponse)
   \<and> generateInterviewResponse (answering (js ''null'')) (parsingTo (Some JNull))
       (js ''gemini-2.5-flash'') [exampleMessage RoleUser (js ''hello'')] exampleConfig None
       exampleProgress []
     = Some (Inr defaultInterviewResponse)
   \<and> generateInterviewResponse stalled (parsingTo None)
       (js ''gemini-2.5-flash'') [exampleMessage RoleUser (js ''hello'')] exampleConfig None
       exampleProgress []
     = None\<close>
proof -
  have a: "\<exists>failure. failing f r = Throws failure" for f r
    by (simp add: failing_def)
  have b: \<open>\<exists>t. answering (js ''{"message": "Hi'') r = Answers t
      \<and> (parsingTo None (cleanJSON (textOrEmptyObject t)) = None
          \<or> parsingTo None (cleanJSON (textOrEmptyObject t)) = Some JNull)\<close> for r
    by (simp add: answering_def parsingTo_def)
  have c: \<open>\<exists>t. answering (js ''null'') r = Answers t
      \<and> (parsingTo (Some JNull) (cleanJSON (textOrEmptyObject t)) = None
          \<or> parsingTo (Some JNull) (cleanJSON (textOrEmptyObject t)) = Some JNull)\<close> for r
    by (simp add: answering_def parsingTo_def)
  have d: "stalled r = NeverSettles" for r
    by (simp add: stalled_def)
  let ?m = "js ''gemini-2.5-flash''" and ?h = "[exampleMessage RoleUser (js ''hello'')]"
  note f = generateInterviewResponse_fallback[where model = ?m and cfg = exampleConfig
      and profile = None and progress = exampleProgress and ctx = "[]" and history = ?h]
  have 1: \<open>generateInterviewResponse (failing (js ''429 RESOURCE_EXHAUSTED'')) (parsingTo None)
       ?m ?h exampleConfig None exampleProgress [] = Some (Inr defaultInterviewResponse)\<close>
    using f[where backend = \<open>failing (js ''429 RESOURCE_EXHAUSTED'')\<close> and parse = "parsingTo None",
        THEN conjunct1, rule_format, OF disjI1, OF a] .
  have 2: \<open>generateInterviewResponse (failing (js ''fetch failed'')) (parsingTo None)
       ?m ?h exampleConfig None exampleProgress [] = Some (Inr defaultInterviewResponse)\<close>
    using f[where backend = \<open>failing (js ''fetch failed'')\<close> and parse = "parsingTo None",
        THEN conjunct1, rule_format, OF disjI1, OF a] .
  have 3: \<open>generateInterviewResponse (answering (js ''{"message": "Hi'')) (parsingTo None)
       ?m ?h exampleConfig None exampleProgress [] = Some (Inr defaultInterviewResponse)\<close>
    using f[where backend = \<open>answering (js ''{"message": "Hi'')\<close> and parse = "parsingTo None",
        THEN conjunct1, rule_format, OF disjI2, OF b] .
  have 4: \<open>generateInterviewResponse (answering (js ''null'')) (parsingTo (Some JNull))
       ?m ?h exampleConfig None exampleProgress [] = Some (Inr defaultInterviewResponse)\<close>
    using f[where backend = \<open>answering (js ''null'')\<close> and parse = "parsingTo (Some JNull)",
        THEN conjunct1, rule_format, OF disjI2, OF c] .
  have 5: \<open>generateInterviewResponse stalled (parsingTo None)
       ?m ?h exampleConfig None exampleProgress [] = None\<close>
    using f[where backend = stalled and parse = "parsingTo None",
        THEN conjunct2, THEN conjunct2, THEN conjunct1] d by (rule iffD2)
  from 1 2 3 4 5 show ?thesis
    by (intro conjI)
qed

lemma getProp_fieldOf:
  "parsed \<noteq> JNull \<Longrightarrow> parsed \<noteq> JUndefined \<Longrightarrow> getProp parsed k = Inr (fieldOf parsed k)"
  by (cases parsed) (simp_all add: fieldOf_def)

lemma responseFromParsed_fields:
  assumes "parsed \<noteq> JNull" and "parsed \<noteq> JUndefined"
  shows \<open>responseFromParsed parsed =
     Inr \<lparr> message_RO = orElse (fieldOf parsed (js ''message''))
                           (JStr (js ''That's interesting. Could you tell me more?'')),
           questionAddressed_RO = nullish (fieldOf parsed (js ''questionAddressed'')) JNull,
           phaseTransition_RO = nullish (fieldOf parsed (js ''phaseTransition'')) JNull,
           profileUpdates_RO = orElse (fieldOf parsed (js ''profileUpdates'')) (JArr []),
           shouldConclude_RO = orElse (fieldOf parsed (js ''shouldConclude'')) (JBool False) \<rparr>\<close>
  by (simp add: responseFromParsed_def getProp_fieldOf[OF assms])

lemma orElse_defined: "b \<noteq> JUndefined \<Longrightarrow> orElse a b \<noteq> JUndefined"
  by (cases a) (simp_all add: orElse_def)

lemma nullish_defined: "nullish a JNull \<noteq> JUndefined"
  by (simp add: nullish_def)

lemma orElse_truthy: "truthy b \<Longrightarrow> truthy (orElse a b)"
  by (simp add: orElse_def)

lemma truthy_not_empty: "truthy v \<Longrightarrow> v \<noteq> JStr []"
  by auto

lemma responseFromParsed_undefined: "responseFromParsed JUndefined = Inl TypeError"
  by (simp add: responseFromParsed_def)

text \<open>
  Claim C9, as amended. When the backend answers and the answer parses, the response has
  every field defined and a truthy message, hence not the empty string. If the parsed
  value is \<open>null\<close>, it is the default response. Otherwise it takes \<open>message\<close>,
  \<open>profileUpdates\<close> and \<open>shouldConclude\<close> from the parsed value where they are truthy and the
  defaults otherwise; \<open>questionAddressed\<close> and \<open>phaseTransition\<close> become \<open>null\<close> only when
  they are absent or \<open>null\<close>, and any other value, a falsy one too, is kept.
\<close>

theorem generateInterviewResponse_field_defaults:
  assumes "backend (chatRequest model (buildInterviewSystemPrompt cfg profile progress ctx) history)
             = Answers t"
    and "parse (cleanJSON (textOrEmptyObject t)) = Some parsed"
  shows \<open>\<exists>r. generateInterviewResponse backend parse model history cfg profile progress ctx
             = Some (Inr r)
     \<and> (parsed = JNull \<or> parsed = JUndefined \<longrightarrow> r = defaultInterviewResponse)
     \<and> (parsed \<noteq> JNull \<and> parsed \<noteq> JUndefined \<longrightarrow>
          message_RO r =
            (if truthy (fieldOf parsed (js ''message'')) then fieldOf parsed (js ''message'')
             else JStr (js ''That's interesting. Could you tell me more?''))
        \<and> questionAddressed_RO r =
            (if fieldOf parsed (js ''questionAddressed'') = JUndefined
                \<or> fieldOf parsed (js ''questionAddressed'') = JNull
             then JNull else fieldOf parsed (js ''questionAddressed''))
        \<and> phaseTransition_RO r =
            (if fieldOf parsed (js ''phaseTransition'') = JUndefined
                \<or> fieldOf parsed (js ''phaseTransition'') = JNull
             then JNull else fieldOf parsed (js ''phaseTransition''))
        \<and> profileUpdates_RO r =
            (if truthy (fieldOf parsed (js ''profileUpdates''))
             then fieldOf parsed (js ''profileUpdates'') else JArr [])
        \<and> shouldConclude_RO r =
            (if truthy (fieldOf parsed (js ''shouldConclude''))
             then fieldOf parsed (js ''shouldConclude'') else JBool False))
     \<and> message_RO r \<noteq> JUndefined \<and> questionAddressed_RO r \<noteq> JUndefined
     \<and> phaseTransition_RO r \<noteq> JUndefined \<and> profileUpdates_RO r \<noteq> JUndefined
     \<and> shouldConclude_RO r \<noteq> JUndefined
     \<and> truthy (message_RO r) \<and> message_RO r \<noteq> JStr []\<close>
proof (cases "parsed = JNull \<or> parsed = JUndefined")
  case True
  let ?sys = "buildInterviewSystemPrompt cfg profile progress ctx"
  from True have "responseFromParsed parsed = Inl TypeError"
    using responseFromParsed_null responseFromParsed_undefined by auto
  then have "tryBody backend parse model ?sys history = Some (Inl TypeError)"
    using assms by (simp add: tryBody_def)
  then have g: "generateInterviewResponse backend parse model history cfg profile progress ctx
      = Some (Inr defaultInterviewResponse)"
    by (simp add: generate_catch)
  have "truthy (message_RO defaultInterviewResponse)"
    by (simp add: defaultInterviewResponse_def js_def)
  moreover have "message_RO defaultInterviewResponse \<noteq> JUndefined"
    "message_RO defaultInterviewResponse \<noteq> JStr []"
    "questionAddressed_RO defaultInterviewResponse \<noteq> JUndefined"
    "phaseTransition_RO defaultInterviewResponse \<noteq> JUndefined"
    "profileUpdates_RO defaultInterviewResponse \<noteq> JUndefined"
    "shouldConclude_RO defaultInterviewResponse \<noteq> JUndefined"
    by (simp_all add: defaultInterviewResponse_def js_def)
  ultimately show ?thesis
    using g True by (intro exI[of _ defaultInterviewResponse] conjI impI) auto
next
  case False
  then have nn: "parsed \<noteq> JNull" and nu: "parsed \<noteq> JUndefined"
    by simp_all
  let ?sys = "buildInterviewSystemPrompt cfg profile progress ctx"
  let ?r = \<open>\<lparr> message_RO = orElse (fieldOf parsed (js ''message''))
                           (JStr (js ''That's interesting. Could you tell me more?'')),
           questionAddressed_RO = nullish (fieldOf parsed (js ''questionAddressed'')) JNull,
           phaseTransition_RO = nullish (fieldOf parsed (js ''phaseTransition'')) JNull,
           profileUpdates_RO = orElse (fieldOf parsed (js ''profileUpdates'')) (JArr []),
           shouldConclude_RO = orElse (fieldOf parsed (js ''shouldConclude'')) (JBool False) \<rparr>\<close>
  have "tryBody backend parse model ?sys history = Some (Inr ?r)"
    using assms responseFromParsed_fields[OF nn nu] by (simp add: tryBody_def)
  then have g: "generateInterviewResponse backend parse model history cfg profile progress ctx
      = Some (Inr ?r)"
    by (simp add: generate_catch)
  have d: \<open>truthy (JStr (js ''That's interesting. Could you tell me more?''))\<close>
    by (simp add: js_def)
  have m: "truthy (message_RO ?r)"
    using orElse_truthy[OF d] by simp
  have "message_RO ?r \<noteq> JUndefined" "message_RO ?r \<noteq> JStr []"
    using m by auto
  moreover have "questionAddressed_RO ?r \<noteq> JUndefined" "phaseTransition_RO ?r \<noteq> JUndefined"
    by (simp_all add: nullish_defined)
  moreover have "profileUpdates_RO ?r \<noteq> JUndefined" "shouldConclude_RO ?r \<noteq> JUndefined"
    by (simp_all add: orElse_defined)
  ultimately show ?thesis
    using g m nn nu by (intro exI[of _ ?r]) (simp add: orElse_def nullish_def)
qed

theorem generateInterviewResponse_field_defaults_witness:
  \<open>generateInterviewResponse (answering (js ''{"shouldConclude":false}''))
       (parsingTo (Some (JObj [(js ''shouldConclude'', JBool False)]))) (js ''gemini-2.5-flash'')
       [exampleMessage RoleUser (js ''hello'')] exampleConfig None exampleProgress []
     = Some (Inr \<lparr> message_RO = JStr (js ''That's interesting. Could you tell me more?''),
             questionAddressed_RO = JNull, phaseTransition_RO = JNull,
             profileUpdates_RO = JArr [], shouldConclude_RO = JBool False \<rparr>)
   \<and> generateInterviewResponse (answering (js ''null'')) (parsingTo (Some JNull))
       (js ''gemini-2.5-flash'') [exampleMessage RoleUser (js ''hello'')] exampleConfig None
       exampleProgress []
     = Some (Inr defaultInterviewResponse)\<close>
proof -
  let ?parsed = \<open>JObj [(js ''shouldConclude'', JBool False)]\<close>
  have h1: \<open>answering x r = Answers (Some x)\<close> for x r
    by (simp add: answering_def)
  have h2: "parsingTo (Some v) s = Some v" for v s
    by (simp add: parsingTo_def)
  have f: \<open>fieldOf ?parsed (js ''message'') = JUndefined\<close>
    \<open>fieldOf ?parsed (js ''questionAddressed'') = JUndefined\<close>
    \<open>fieldOf ?parsed (js ''phaseTransition'') = JUndefined\<close>
    \<open>fieldOf ?parsed (js ''profileUpdates'') = JUndefined\<close>
    \<open>fieldOf ?parsed (js ''shouldConclude'') = JBool False\<close>
    by (simp_all add: fieldOf_def js_def)
  from generateInterviewResponse_field_defaults[
      where backend = \<open>answering (js ''{"shouldConclude":false}'')\<close>
        and parse = "parsingTo (Some ?parsed)" and model = "js ''gemini-2.5-flash''"
        and cfg = exampleConfig and profile = None and progress = exampleProgress
        and ctx = "[]" and history = "[exampleMessage RoleUser (js ''hello'')]"
        and parsed = ?parsed, OF h1 h2]
  obtain r where r: \<open>generateInterviewResponse (answering (js ''{"shouldConclude":false}''))
       (parsingTo (Some ?parsed)) (js ''gemini-2.5-flash'')
       [exampleMessage RoleUser (js ''hello'')] exampleConfig None exampleProgress []
     = Some (Inr r)\<close>
    and \<open>message_RO r = JStr (js ''That's interesting. Could you tell me more?'')\<close>
    and "questionAddressed_RO r = JNull" and "phaseTransition_RO r = JNull"
    and "profileUpdates_RO r = JArr []" and "shouldConclude_RO r = JBool False"
    unfolding f by auto
  then have a: \<open>generateInterviewResponse (answering (js ''{"shouldConclude":false}''))
       (parsingTo (Some ?parsed)) (js ''gemini-2.5-flash'')
       [exampleMessage RoleUser (js ''hello'')] exampleConfig None exampleProgress []
     = Some (Inr \<lparr> message_RO = JStr (js ''That's interesting. Could you tell me more?''),
             questionAddressed_RO = JNull, phaseTransition_RO = JNull,
             profileUpdates_RO = JArr [], shouldConclude_RO = JBool False \<rparr>)\<close>
    by simp
  from generateInterviewResponse_field_defaults[
      where backend = \<open>answering (js ''null'')\<close>
        and parse = "parsingTo (Some JNull)" and model = "js ''gemini-2.5-flash''"
        and cfg = exampleConfig and profile = None and progress = exampleProgress
        and ctx = "[]" and history = "[exampleMessage RoleUser (js ''hello'')]"
        and parsed = JNull, OF h1 h2]
  have b: \<open>generateInterviewResponse (answering (js ''null'')) (parsingTo (Some JNull))
       (js ''gemini-2.5-flash'') [exampleMessage RoleUser (js ''hello'')] exampleConfig None
       exampleProgress [] = Some (Inr defaultInterviewResponse)\<close>
    by auto
  from a b show ?thesis by simp
qed

text \<open>
  Claim C9 as stated fails: the index 0 is falsy, and it is kept, not replaced by
  \<open>null\<close>.
\<close>

theorem falsy_index_kept_counterexample:
  \<open>cleanJSON (textOrEmptyObject (Some (js ''{"message":"Thanks!","questionAddressed":0}'')))
     = js ''{"message":"Thanks!","questionAddressed":0}''
   \<and> generateInterviewResponse (answering (js ''{"message":"Thanks!","questionAddressed":0}''))
       (parsingTo (Some (JObj [(js ''message'', JStr (js ''Thanks!'')),
                               (js ''questionAddressed'', JNum 0)])))
       (js ''gemini-2.5-flash'') [exampleMessage RoleUser (js ''hello'')] exampleConfig None
       exampleProgress []
     = Some (Inr \<lparr> message_RO = JStr (js ''Thanks!''), questionAddressed_RO = JNum 0,
             phaseTransition_RO = JNull, profileUpdates_RO = JArr [],
             shouldConclude_RO = JBool False \<rparr>)
   \<and> \<not> truthy (JNum 0) \<and> JNum 0 \<noteq> JNull\<close>
proof -
  have c: \<open>cleanJSON (textOrEmptyObject (Some (js ''{"message":"Thanks!","questionAddressed":0}'')))
     = js ''{"message":"Thanks!","questionAddressed":0}''\<close>
    by (simp add: textOrEmptyObject_def cleanJSON_def cleanFences_def js_def trim_def is_space_def
        balancedFrom_def Let_def)
  have g: \<open>generateInterviewResponse (answering (js ''{"message":"Thanks!","questionAddressed":0}''))
       (parsingTo (Some (JObj [(js ''message'', JStr (js ''Thanks!'')),
                               (js ''questionAddressed'', JNum 0)])))
       (js ''gemini-2.5-flash'') [exampleMessage RoleUser (js ''hello'')] exampleConfig None
       exampleProgress []
     = Some (Inr \<lparr> message_RO = JStr (js ''Thanks!''), questionAddressed_RO = JNum 0,
             phaseTransition_RO = JNull, profileUpdates_RO = JArr [],
             shouldConclude_RO = JBool False \<rparr>)\<close>
    by (simp add: generate_catch tryBody_def answering_def parsingTo_def responseFromParsed_def
        orElse_def nullish_def js_def)
  from c g show ?thesis by simp
qed









section \<open>Properties of the question-progress model and of the turn orchestrator\<close>

lemma advancePhase_order: "phaseOrder (currentPhase p) \<le> phaseOrder (currentPhase (advancePhase p r))"
  by (simp add: advancePhase_def)

lemma advancePhase_sequence:
  "phaseOrder (currentPhase p) \<le> phaseOrder (currentPhase (foldl advancePhase p rs))"
proof (induction rs arbitrary: p)
  case Nil
  then show ?case by simp
next
  case (Cons r rs)
  have "phaseOrder (currentPhase p) \<le> phaseOrder (currentPhase (advancePhase p r))"
    by (rule advancePhase_order)
  also have "\<dots> \<le> phaseOrder (currentPhase (foldl advancePhase (advancePhase p r) rs))"
    by (rule Cons.IH)
  finally show ?case by simp
qed

lemma phaseOrder_inj: "phaseOrder a = phaseOrder b \<Longrightarrow> a = b"
  by (cases a; cases b) simp_all

text \<open>
  Claim C1. \<open>advancePhase\<close> moves to the requested phase when that phase is strictly later
  than the current one in the order background, core-questions, exploration, feedback,
  wrap-up, and leaves the progress unchanged when it is earlier or the same; so the
  current phase never decreases over a sequence of calls.
\<close>

theorem advancePhase_never_regresses:
  "(phaseOrder (currentPhase progress) < phaseOrder requested \<longrightarrow>
      advancePhase progress requested = progress\<lparr>currentPhase := requested\<rparr>)
   \<and> (phaseOrder requested \<le> phaseOrder (currentPhase progress) \<longrightarrow>
      advancePhase progress requested = progress)
   \<and> (advancePhase progress requested \<noteq> progress \<longrightarrow>
      phaseOrder (currentPhase progress) < phaseOrder requested)
   \<and> phaseOrder (currentPhase progress)
       \<le> phaseOrder (currentPhase (foldl advancePhase progress requests))
   \<and> phaseOrder Background < phaseOrder CoreQuestions
   \<and> phaseOrder CoreQuestions < phaseOrder Exploration
   \<and> phaseOrder Exploration < phaseOrder Feedback
   \<and> phaseOrder Feedback < phaseOrder WrapUp"
  using advancePhase_sequence[of progress requests]
  by (auto simp: advancePhase_def)

theorem advancePhase_never_regresses_witness:
  "advancePhase (exampleProgress\<lparr>currentPhase := Exploration\<rparr>) Feedback
     = exampleProgress\<lparr>currentPhase := Feedback\<rparr>
   \<and> advancePhase (exampleProgress\<lparr>currentPhase := Exploration\<rparr>) CoreQuestions
     = exampleProgress\<lparr>currentPhase := Exploration\<rparr>
   \<and> advancePhase (exampleProgress\<lparr>currentPhase := Exploration\<rparr>) Exploration
     = exampleProgress\<lparr>currentPhase := Exploration\<rparr>
   \<and> currentPhase (foldl advancePhase exampleProgress [Exploration, Background, Feedback, CoreQuestions])
     = Feedback"
proof -
  let ?p = "exampleProgress\<lparr>currentPhase := Exploration\<rparr>"
  have c: "currentPhase ?p = Exploration" by simp
  have "advancePhase ?p Feedback = ?p\<lparr>currentPhase := Feedback\<rparr>"
    using advancePhase_never_regresses[of ?p Feedback "[]"] by (simp add: c)
  moreover have "advancePhase ?p CoreQuestions = ?p"
    using advancePhase_never_regresses[of ?p CoreQuestions "[]"] by (simp add: c)
  moreover have "advancePhase ?p Exploration = ?p"
    using advancePhase_never_regresses[of ?p Exploration "[]"] by (simp add: c)
  moreover have "currentPhase (foldl advancePhase exampleProgress [Exploration, Background, Feedback, CoreQuestions])
     = Feedback"
    by (simp add: advancePhase_def exampleProgress_def)
  ultimately show ?thesis by simp
qed

lemma markAddressed_phase: "currentPhase (markAddressed p i) = currentPhase p"
  by (simp add: markAddressed_def)

lemma phaseOrder_le_4: "phaseOrder p \<le> 4"
  by (cases p) simp_all

lemma phaseOrder_WrapUp: "phaseOrder WrapUp \<le> phaseOrder p \<Longrightarrow> p = WrapUp"
  by (cases p) simp_all

lemma applyTurn_phase_mono:
  assumes "applyTurn cfg s response = Some r"
  shows "phaseOrder (currentPhase (progress_S s))
           \<le> phaseOrder (currentPhase (progress_S (session r)))"
proof -
  let ?p1 = "case questionAddressed response of
               None \<Rightarrow> progress_S s | Some i \<Rightarrow> markAddressed (progress_S s) i"
  have p1: "currentPhase ?p1 = currentPhase (progress_S s)"
    by (simp add: markAddressed_phase split: option.split)
  from assms have nc: "\<not> isComplete (progress_S s)"
    by (auto simp: applyTurn_def split: if_splits)
  show ?thesis
  proof (cases "phaseTransition response")
    case None
    with assms nc p1 show ?thesis
      by (auto simp: applyTurn_def Let_def)
  next
    case (Some p)
    have "phaseOrder (currentPhase ?p1) \<le> phaseOrder (currentPhase (advancePhase ?p1 p))"
      by (rule advancePhase_order)
    with assms nc p1 Some show ?thesis
      by (auto simp: applyTurn_def Let_def split: if_splits)
  qed
qed

lemma applyTurn_concluded:
  assumes "applyTurn cfg s response = Some r"
  shows "concluded r = (shouldConclude response \<and> currentPhase (progress_S s) = WrapUp)"
    and "isComplete (progress_S (session r)) = concluded r"
  using assms by (auto simp: applyTurn_def Let_def split: if_splits)

lemma afterTurn_invariant:
  assumes "isComplete (progress_S s) \<longrightarrow> currentPhase (progress_S s) = WrapUp"
  shows "isComplete (progress_S (afterTurn cfg s response))
           \<longrightarrow> currentPhase (progress_S (afterTurn cfg s response)) = WrapUp"
proof (cases "applyTurn cfg s response")
  case None
  with assms show ?thesis by (simp add: afterTurn_def)
next
  case (Some r)
  show ?thesis
  proof
    assume "isComplete (progress_S (afterTurn cfg s response))"
    with Some have "concluded r"
      by (simp add: afterTurn_def applyTurn_concluded(2)[OF Some])
    then have "currentPhase (progress_S s) = WrapUp"
      by (simp add: applyTurn_concluded(1)[OF Some])
    with applyTurn_phase_mono[OF Some]
    have "currentPhase (progress_S (session r)) = WrapUp"
      by (simp add: phaseOrder_WrapUp)
    with Some show "currentPhase (progress_S (afterTurn cfg s response)) = WrapUp"
      by (simp add: afterTurn_def)
  qed
qed

lemma afterTurns_invariant:
  assumes "isComplete (progress_S s) \<longrightarrow> currentPhase (progress_S s) = WrapUp"
  shows "isComplete (progress_S (afterTurns cfg s responses))
           \<longrightarrow> currentPhase (progress_S (afterTurns cfg s responses)) = WrapUp"
  using assms
proof (induction responses arbitrary: s)
  case Nil
  then show ?case by (simp add: afterTurns_def)
next
  case (Cons response responses)
  have "afterTurns cfg s (response # responses)
      = afterTurns cfg (afterTurn cfg s response) responses"
    by (simp add: afterTurns_def)
  with Cons.IH[OF afterTurn_invariant[OF Cons.prems]] show ?case
    by simp
qed

text \<open>
  Claim C2. A response with \<open>shouldConclude\<close> counts only when the current phase is
  wrap-up: in any other phase the turn is not concluded and \<open>isComplete\<close> stays as it was.
  A concluded turn starts and ends in the wrap-up phase, and in every session reached from
  the initial progress \<open>isComplete\<close> holds only in the wrap-up phase.
\<close>

theorem shouldConclude_only_in_wrap_up:
  "(currentPhase (progress_S s) \<noteq> WrapUp \<longrightarrow>
      (\<forall>r. applyTurn cfg s response = Some r \<longrightarrow>
           \<not> concluded r \<and> \<not> isComplete (progress_S (session r)))
      \<and> isComplete (progress_S (afterTurn cfg s response)) = isComplete (progress_S s))
   \<and> (\<forall>r. applyTurn cfg s response = Some r \<longrightarrow>
         concluded r = (shouldConclude response \<and> currentPhase (progress_S s) = WrapUp)
         \<and> isComplete (progress_S (session r)) = concluded r
         \<and> (concluded r \<longrightarrow> currentPhase (progress_S (session r)) = WrapUp))
   \<and> (isComplete (progress_S (afterTurns cfg
          \<lparr> profile_S = profile, progress_S = initializeProgress n \<rparr> responses))
       \<longrightarrow> currentPhase (progress_S (afterTurns cfg
          \<lparr> profile_S = profile, progress_S = initializeProgress n \<rparr> responses)) = WrapUp)"
proof (intro conjI impI allI)
  fix r
  assume ph: "currentPhase (progress_S s) \<noteq> WrapUp" and a: "applyTurn cfg s response = Some r"
  from applyTurn_concluded[OF a] ph
  show "\<not> concluded r" and "\<not> isComplete (progress_S (session r))"
    by simp_all
next
  assume ph: "currentPhase (progress_S s) \<noteq> WrapUp"
  show "isComplete (progress_S (afterTurn cfg s response)) = isComplete (progress_S s)"
  proof (cases "applyTurn cfg s response")
    case None
    then show ?thesis by (simp add: afterTurn_def)
  next
    case (Some r)
    then have "\<not> isComplete (progress_S s)"
      by (auto simp: applyTurn_def split: if_splits)
    with applyTurn_concluded[OF Some] ph Some show ?thesis
      by (simp add: afterTurn_def)
  qed
next
  fix r
  assume a: "applyTurn cfg s response = Some r"
  from applyTurn_concluded[OF a]
  show "concluded r = (shouldConclude response \<and> currentPhase (progress_S s) = WrapUp)"
    and "isComplete (progress_S (session r)) = concluded r"
    by simp_all
next
  fix r
  assume a: "applyTurn cfg s response = Some r" and c: "concluded r"
  from c have "currentPhase (progress_S s) = WrapUp"
    by (simp add: applyTurn_concluded(1)[OF a])
  with applyTurn_phase_mono[OF a] show "currentPhase (progress_S (session r)) = WrapUp"
    by (simp add: phaseOrder_WrapUp)
next
  let ?s0 = "\<lparr> profile_S = profile, progress_S = initializeProgress n \<rparr>"
  assume c: "isComplete (progress_S (afterTurns cfg ?s0 responses))"
  have "isComplete (progress_S ?s0) \<longrightarrow> currentPhase (progress_S ?s0) = WrapUp"
    by (simp add: initializeProgress_def)
  from afterTurns_invariant[OF this, of cfg responses] c
  show "currentPhase (progress_S (afterTurns cfg ?s0 responses)) = WrapUp"
    by simp
qed

theorem shouldConclude_only_in_wrap_up_witness:
  \<open>currentPhase (progress_S exampleSession) \<noteq> WrapUp
   \<and> \<not> isComplete (progress_S (afterTurn exampleConfig exampleSession
           (exampleResponse (Some WrapUp)
              [\<lparr> fieldId_PU = js ''role'', value_PU = Some (js ''nurse''), status_PU = UpdExtracted \<rparr>]
              True)))
   \<and> currentPhase (progress_S (afterTurn exampleConfig exampleSession
           (exampleResponse (Some WrapUp)
              [\<lparr> fieldId_PU = js ''role'', value_PU = Some (js ''nurse''), status_PU = UpdExtracted \<rparr>]
              True))) = WrapUp
   \<and> isComplete (progress_S (afterTurns exampleConfig exampleSession
           [exampleResponse (Some WrapUp)
              [\<lparr> fieldId_PU = js ''role'', value_PU = Some (js ''nurse''), status_PU = UpdExtracted \<rparr>]
              True,
            exampleResponse None [] True]))\<close>
proof -
  let ?r1 = \<open>exampleResponse (Some WrapUp)
              [\<lparr> fieldId_PU = js ''role'', value_PU = Some (js ''nurse''), status_PU = UpdExtracted \<rparr>]
              True\<close>
  let ?r2 = "exampleResponse None [] True"
  have ph: "currentPhase (progress_S exampleSession) \<noteq> WrapUp"
    and nc: "\<not> isComplete (progress_S exampleSession)"
    by (simp_all add: exampleSession_def initializeProgress_def)
  have "isComplete (progress_S (afterTurn exampleConfig exampleSession ?r1))
      = isComplete (progress_S exampleSession)"
    using shouldConclude_only_in_wrap_up[of exampleSession exampleConfig ?r1] ph by blast
  with nc have a: "\<not> isComplete (progress_S (afterTurn exampleConfig exampleSession ?r1))"
    by simp
  have p': \<open>reconcile (exampleProfile Pending None)
        [\<lparr> fieldId_PU = js ''role'', value_PU = Some (js ''nurse''), status_PU = UpdExtracted \<rparr>]
      = exampleProfile Extracted (Some (js ''nurse''))\<close>
    by (simp add: reconcile_def applyUpdate_def reconciledValue_def exampleProfile_def js_def)
  have sat: \<open>requiredSatisfied exampleConfig (exampleProfile Extracted (Some (js ''nurse'')))\<close>
    by (simp add: requiredSatisfied_def requiredFields_def exampleConfig_def exampleField_def
        find_example_some)
  have s1: \<open>afterTurn exampleConfig exampleSession ?r1 =
      \<lparr> profile_S = exampleProfile Extracted (Some (js ''nurse'')),
        progress_S = (initializeProgress 2)\<lparr>currentPhase := WrapUp\<rparr> \<rparr>\<close>
    by (simp add: afterTurn_def applyTurn_def exampleSession_def exampleResponse_def Let_def p' sat
        advancePhase_def initializeProgress_def)
  have b: "currentPhase (progress_S (afterTurn exampleConfig exampleSession ?r1)) = WrapUp"
    by (simp add: s1)
  have c: "isComplete (progress_S (afterTurns exampleConfig exampleSession [?r1, ?r2]))"
    by (simp add: afterTurns_def s1)
      (simp add: afterTurn_def applyTurn_def exampleResponse_def Let_def reconcile_def
        initializeProgress_def)
  from ph a b c show ?thesis by simp
qed

end
